theory Spec2Isabelle
  imports Main "HOL-Library.Word" "HOL-Library.Sublist"
begin

unbundle bit_operations_syntax

section \<open>C library string functions used by scheduler/auth.c\<close>

text \<open>
  A C string is modelled by the list of its bytes before the terminating NUL.
  \<open>strcmp(a, b) == 0\<close> is then equality of the lists.  The other comparisons of the
  C library that auth.c uses are given here in the "C" locale.
\<close>

definition isupper :: "char \<Rightarrow> bool" where
  "isupper c = (65 \<le> (of_char c :: nat) \<and> (of_char c :: nat) \<le> 90)"

definition tolower :: "char \<Rightarrow> char" where
  \<comment> \<open>an upper-case letter \<open>c\<close> becomes \<open>c + 32\<close>, that is \<open>c\<close> with bit 5 set\<close>
  "tolower c =
     (if isupper c
      then (case c of Char b0 b1 b2 b3 b4 b5 b6 b7 \<Rightarrow> Char b0 b1 b2 b3 b4 True b6 b7)
      else c)"

definition strcasecmp_eq :: "string \<Rightarrow> string \<Rightarrow> bool" where
  \<comment> \<open>\<open>strcasecmp(a, b) == 0\<close>\<close>
  "strcasecmp_eq a b = (map tolower a = map tolower b)"

definition strncmp_eq :: "string \<Rightarrow> string \<Rightarrow> nat \<Rightarrow> bool" where
  \<comment> \<open>\<open>strncmp(a, b, n) == 0\<close>: the first \<open>n\<close> bytes agree, a shorter string
      agreeing only with a string that ends at the same place\<close>
  "strncmp_eq a b n = (take n a = take n b)"

definition strncasecmp_eq :: "string \<Rightarrow> string \<Rightarrow> nat \<Rightarrow> bool" where
  \<comment> \<open>\<open>strncasecmp(a, b, n) == 0\<close>\<close>
  "strncasecmp_eq a b n = (map tolower (take n a) = map tolower (take n b))"

definition strlcpy :: "string \<Rightarrow> nat \<Rightarrow> string" where
  \<comment> \<open>\<open>strlcpy(dst, src, size)\<close>: the content of \<open>dst\<close> afterwards\<close>
  "strlcpy src sz = take (sz - 1) src"

definition first_char_is :: "string \<Rightarrow> char \<Rightarrow> bool" where
  \<comment> \<open>\<open>s[0] == c\<close> for a character \<open>c\<close> other than NUL\<close>
  "first_char_is s c = (case s of [] \<Rightarrow> False | x # _ \<Rightarrow> x = c)"

section \<open>Data model (the declarations auth.c takes from auth.h and http.h)\<close>

type_synonym u32 = "32 word"

type_synonym ip4 = "u32 \<times> u32 \<times> u32 \<times> u32"
  \<comment> \<open>\<open>unsigned ip[4]\<close>\<close>

datatype auth_type = AUTH_NONE | AUTH_BASIC | AUTH_DIGEST | AUTH_BASICDIGEST
  \<comment> \<open>the order of the table \<open>types[]\<close> in cupsdIsAuthorized\<close>

datatype auth_level = AUTH_ANON | AUTH_USER | AUTH_GROUP
  \<comment> \<open>the order of the table \<open>levels[]\<close> in cupsdIsAuthorized\<close>

datatype auth_order = AUTH_ALLOW | AUTH_DENY
  \<comment> \<open>used both for \<open>order_type\<close> and for the host verdict \<open>auth\<close>\<close>

datatype auth_satisfy = AUTH_SATISFY_ALL | AUTH_SATISFY_ANY

datatype cupsd_authmask =
    AUTH_NAME string nat
      \<comment> \<open>\<open>mask.name.name\<close>, \<open>mask.name.length\<close>\<close>
  | AUTH_IP ip4 ip4
      \<comment> \<open>\<open>mask.ip.address\<close>, \<open>mask.ip.netmask\<close>\<close>
  | AUTH_INTERFACE string nat

datatype http_state =
    HTTP_WAITING | HTTP_OPTIONS | HTTP_GET | HTTP_GET_SEND | HTTP_HEAD
  | HTTP_POST | HTTP_POST_RECV | HTTP_POST_SEND | HTTP_PUT | HTTP_PUT_RECV
  | HTTP_DELETE | HTTP_TRACE | HTTP_CLOSE | HTTP_STATUS
  \<comment> \<open>the fourteen indices of the tables \<open>limits[]\<close> and \<open>states[]\<close>\<close>

datatype http_status = HTTP_OK | HTTP_UNAUTHORIZED | HTTP_FORBIDDEN | HTTP_UPGRADE_REQUIRED

record cupsd_location =
  location :: string
  length_l :: nat          \<comment> \<open>the field \<open>length\<close>\<close>
  limit :: u32
  order_type :: auth_order
  type_l :: auth_type      \<comment> \<open>the field \<open>type\<close>\<close>
  level :: auth_level
  satisfy :: auth_satisfy
  names :: "string list"   \<comment> \<open>\<open>names[0 .. num_names - 1]\<close>\<close>
  allow :: "cupsd_authmask list"
  deny :: "cupsd_authmask list"
  encryption :: nat

text \<open>
  The bit values of the request-verb masks are declared in auth.h, which is not part of
  the sources at hand; they are parameters of the model.
\<close>

record auth_limits =
  AUTH_LIMIT_ALL :: u32
  AUTH_LIMIT_OPTIONS :: u32
  AUTH_LIMIT_GET :: u32
  AUTH_LIMIT_HEAD :: u32
  AUTH_LIMIT_POST :: u32
  AUTH_LIMIT_PUT :: u32
  AUTH_LIMIT_DELETE :: u32
  AUTH_LIMIT_TRACE :: u32
  AUTH_LIMIT_IPP :: u32

section \<open>cupsdFindBest\<close>

fun limits :: "auth_limits \<Rightarrow> http_state \<Rightarrow> u32" where
  "limits lc HTTP_WAITING = AUTH_LIMIT_ALL lc"
| "limits lc HTTP_OPTIONS = AUTH_LIMIT_OPTIONS lc"
| "limits lc HTTP_GET = AUTH_LIMIT_GET lc"
| "limits lc HTTP_GET_SEND = AUTH_LIMIT_GET lc"
| "limits lc HTTP_HEAD = AUTH_LIMIT_HEAD lc"
| "limits lc HTTP_POST = AUTH_LIMIT_POST lc"
| "limits lc HTTP_POST_RECV = AUTH_LIMIT_POST lc"
| "limits lc HTTP_POST_SEND = AUTH_LIMIT_POST lc"
| "limits lc HTTP_PUT = AUTH_LIMIT_PUT lc"
| "limits lc HTTP_PUT_RECV = AUTH_LIMIT_PUT lc"
| "limits lc HTTP_DELETE = AUTH_LIMIT_DELETE lc"
| "limits lc HTTP_TRACE = AUTH_LIMIT_TRACE lc"
| "limits lc HTTP_CLOSE = AUTH_LIMIT_ALL lc"
| "limits lc HTTP_STATUS = AUTH_LIMIT_ALL lc"

definition queue_uri :: "string \<Rightarrow> bool" where
  \<comment> \<open>\<open>!strncmp(uri, "/printers/", 10) || !strncmp(uri, "/classes/", 9)\<close>\<close>
  "queue_uri uri = (strncmp_eq uri ''/printers/'' 10 \<or> strncmp_eq uri ''/classes/'' 9)"

definition drop_ppd :: "string \<Rightarrow> string" where
  \<comment> \<open>lines 845-856: the \<open>.ppd\<close> extension is cut from a queue URI\<close>
  "drop_ppd uri =
     (if queue_uri uri then
        (if drop (length uri - 4) uri = ''.ppd'' then take (length uri - 4) uri else uri)
      else uri)"

definition loc_better :: "string \<Rightarrow> u32 \<Rightarrow> nat \<Rightarrow> cupsd_location \<Rightarrow> bool" where
  \<comment> \<open>the condition of the two \<open>if\<close>s of the loop, lines 873-902\<close>
  "loc_better uri lim bestlen loc =
     (if queue_uri uri then
        length_l loc > bestlen \<and>
        strncasecmp_eq uri (location loc) (length_l loc) \<and>
        first_char_is (location loc) CHR ''/'' \<and>
        lim AND limit loc \<noteq> 0
      else
        length_l loc > bestlen \<and>
        strncmp_eq uri (location loc) (length_l loc) \<and>
        first_char_is (location loc) CHR ''/'' \<and>
        lim AND limit loc \<noteq> 0)"

fun find_best_loop ::
  "string \<Rightarrow> u32 \<Rightarrow> cupsd_location list \<Rightarrow> cupsd_location option \<Rightarrow> nat
     \<Rightarrow> cupsd_location option" where
  "find_best_loop uri lim [] best bestlen = best"
| "find_best_loop uri lim (loc # locs) best bestlen =
     (if loc_better uri lim bestlen loc
      then find_best_loop uri lim locs (Some loc) (length_l loc)
      else find_best_loop uri lim locs best bestlen)"

definition cupsdFindBest ::
  "auth_limits \<Rightarrow> nat \<Rightarrow> cupsd_location list \<Rightarrow> string \<Rightarrow> http_state
     \<Rightarrow> cupsd_location option" where
  \<comment> \<open>\<open>lc\<close>: the AUTH_LIMIT constants; \<open>max_uri\<close>: HTTP_MAX_URI, the size of the buffer
      \<open>uri\<close>; \<open>Locations\<close>: the global array \<open>Locations[0 .. NumLocations - 1]\<close>\<close>
  "cupsdFindBest lc max_uri Locations path state =
     (let uri = drop_ppd (strlcpy path max_uri);
          lim = limits lc state
      in find_best_loop uri lim Locations None 0)"

section \<open>The world outside auth.c\<close>

text \<open>
  The calls that leave the process are recorded, in the order the code makes them, so
  that statements about which lookups a request causes can be made.
\<close>

datatype os_call =
    CALL_cupsdNetIFUpdate
  | CALL_NetIFFind string
  | CALL_getgrnam string
  | CALL_getpwnam string
  | CALL_getspnam string
  | CALL_pam_start string
  | CALL_pam_authenticate
  | CALL_pam_acct_mgmt
  | CALL_pam_end
  | CALL_authenticate string
  | CALL_cupsFileOpen_passwd_md5

record cupsd_netif =
  is_local :: bool
  family_inet :: bool      \<comment> \<open>\<open>address.addr.sa_family == AF_INET\<close>\<close>
  ipv4_addr :: u32         \<comment> \<open>\<open>address.ipv4.sin_addr.s_addr\<close>\<close>
  ipv4_mask :: u32
  ipv6_addr :: ip4         \<comment> \<open>\<open>address.ipv6.sin6_addr.s6_addr32[0 .. 3]\<close>\<close>
  ipv6_mask :: ip4

record passwd =
  pw_passwd :: string
  pw_gid :: nat

record group =
  gr_mem :: "string list"
  gr_gid :: nat

record spwd =
  sp_pwdp :: string

datatype auth_backend =
    HAVE_LIBPAM
  | HAVE_USERSEC_H
  | UNIX_PASSWD bool
      \<comment> \<open>neither of the two; the flag is \<open>HAVE_SHADOW_H\<close>\<close>

datatype http_addr = ADDR_INET u32 | ADDR_INET6 ip4 | ADDR_OTHER
  \<comment> \<open>\<open>con->http.hostaddr\<close>, by \<open>sa_family\<close>, in network byte order\<close>

text \<open>
  Everything auth.c reads that is not its argument: the compile-time switches, the
  constants of headers that are not at hand, the globals of the scheduler, and the
  functions of the operating system and of the CUPS library, each as the function of
  its arguments that one request sees.  \<open>cups_crypt\<close> is defined in auth.c on top of
  crypt(3) and the MD5 primitives; it is taken as a function too.
\<close>

record cupsd_env =
  have_AF_INET6 :: bool
  HAVE_SSL :: bool
  backend :: auth_backend
  htonl :: "u32 \<Rightarrow> u32"
  ntohl :: "u32 \<Rightarrow> u32"
  HTTP_ENCRYPT_REQUIRED :: nat
  auth_limit :: auth_limits
  ServerName :: string
  DefaultAuthType :: auth_type
  SystemGroups :: "string list"
  NetIFList :: "cupsd_netif list"
    \<comment> \<open>the list as \<open>cupsdNetIFUpdate\<close> leaves it\<close>
  NetIFFind :: "string \<Rightarrow> cupsd_netif option"
  getgrnam :: "string \<Rightarrow> group option"
  getpwnam :: "string \<Rightarrow> passwd option"
  getspnam :: "string \<Rightarrow> spwd option"
  pam_start :: "string \<Rightarrow> bool"
    \<comment> \<open>\<open>pam_start("cups", username, ...) == PAM_SUCCESS\<close>\<close>
  pam_authenticate :: "string \<Rightarrow> string \<Rightarrow> bool"
    \<comment> \<open>with \<open>pam_func\<close> answering the user name and the password of the client\<close>
  pam_acct_mgmt :: "string \<Rightarrow> bool"
  authenticate :: "string \<Rightarrow> string \<Rightarrow> bool"
    \<comment> \<open>AIX: \<open>authenticate(username, password, ...) == 0\<close>\<close>
  cups_crypt :: "string \<Rightarrow> string \<Rightarrow> string option"
  passwd_md5 :: "string list option"
    \<comment> \<open>\<open>None\<close>: ServerRoot/passwd.md5 cannot be opened; else its lines as
        \<open>cupsFileGets\<close> returns them\<close>
  httpGetSubField :: "string \<Rightarrow> string \<Rightarrow> string option"
    \<comment> \<open>the named subfield of a header value, \<open>None\<close> for a NULL result\<close>
  httpMD5Final :: "string \<Rightarrow> string \<Rightarrow> string \<Rightarrow> string \<Rightarrow> string"
    \<comment> \<open>nonce, method, resource, MD5 sum: the new content of the last buffer\<close>
  httpMD5 :: "string \<Rightarrow> string \<Rightarrow> string \<Rightarrow> string"

record cupsd_client =
  con_best :: "cupsd_location option"
  con_uri :: string
  con_username :: string
  con_password :: string
  con_http_hostname :: string
  con_http_hostaddr :: http_addr
  con_http_tls :: bool                  \<comment> \<open>\<open>con->http.tls != NULL\<close>\<close>
  con_http_state :: http_state
  con_http_authorization :: string      \<comment> \<open>\<open>con->http.fields[HTTP_FIELD_AUTHORIZATION]\<close>\<close>
  con_requesting_user_name :: "string option"
    \<comment> \<open>\<open>ippFindAttribute(con->request, "requesting-user-name", IPP_TAG_NAME)\<close>\<close>

definition after :: "os_call list \<Rightarrow> 'a \<times> os_call list \<Rightarrow> 'a \<times> os_call list" where
  \<comment> \<open>a computation that runs after the calls \<open>l\<close> have been made\<close>
  "after l r = (fst r, l @ snd r)"

section \<open>cupsdCheckAuth\<close>

definition ip_masked_eq :: "ip4 \<Rightarrow> ip4 \<Rightarrow> ip4 \<Rightarrow> bool" where
  \<comment> \<open>the loop \<open>for (i = 0; i < 4; i ++) if ((a[i] & m[i]) != b[i]) break;\<close> ends with
      \<open>i == 4\<close>\<close>
  "ip_masked_eq a m b =
     (case a of (a0, a1, a2, a3) \<Rightarrow> case m of (m0, m1, m2, m3) \<Rightarrow> case b of (b0, b1, b2, b3) \<Rightarrow>
        a0 AND m0 = b0 \<and> a1 AND m1 = b1 \<and> a2 AND m2 = b2 \<and> a3 AND m3 = b3)"

definition netif_match :: "cupsd_env \<Rightarrow> ip4 \<Rightarrow> cupsd_netif \<Rightarrow> bool" where
  \<comment> \<open>lines 328-354 and 366-392: the peer is on the network of the interface\<close>
  "netif_match env ip iface =
     (case ip of (ip0, ip1, ip2, ip3) \<Rightarrow>
        if family_inet iface then
          htonl env ip3 AND ipv4_mask iface = ipv4_addr iface AND ipv4_mask iface
        else
          have_AF_INET6 env \<and>
          (case ipv6_addr iface of (a0, a1, a2, a3) \<Rightarrow>
           case ipv6_mask iface of (m0, m1, m2, m3) \<Rightarrow>
             ip_masked_eq (htonl env ip0, htonl env ip1, htonl env ip2, htonl env ip3)
               (m0, m1, m2, m3) (a0 AND m0, a1 AND m1, a2 AND m2, a3 AND m3)))"

fun check_mask ::
  "cupsd_env \<Rightarrow> ip4 \<Rightarrow> string \<Rightarrow> nat \<Rightarrow> cupsd_authmask \<Rightarrow> bool \<times> os_call list" where
  \<comment> \<open>the body of the \<open>switch (masks->type)\<close>, lines 295-429: \<open>True\<close> is \<open>return (1)\<close>,
      \<open>False\<close> is \<open>break\<close>\<close>
  "check_mask env ip name name_len (AUTH_INTERFACE ifname iflen) =
     (if ifname = ''*'' then
        (list_ex (\<lambda>iface. is_local iface \<and> netif_match env ip iface) (NetIFList env),
         [CALL_cupsdNetIFUpdate])
      else
        (case NetIFFind env ifname of
           Some iface \<Rightarrow> (netif_match env ip iface, [CALL_NetIFFind ifname])
         | None \<Rightarrow> (False, [CALL_NetIFFind ifname])))"
| "check_mask env ip name name_len (AUTH_NAME mname mlen) =
     (if strcasecmp_eq name mname then (True, [])
      else if name_len \<ge> mlen \<and> first_char_is mname CHR ''.'' \<and>
              strcasecmp_eq (drop (name_len - mlen) name) mname then (True, [])
      else (False, []))"
| "check_mask env ip name name_len (AUTH_IP address netmask) =
     (ip_masked_eq ip netmask address, [])"

fun cupsdCheckAuth ::
  "cupsd_env \<Rightarrow> ip4 \<Rightarrow> string \<Rightarrow> nat \<Rightarrow> cupsd_authmask list \<Rightarrow> bool \<times> os_call list" where
  \<comment> \<open>the list is \<open>masks[0 .. num_masks - 1]\<close>\<close>
  "cupsdCheckAuth env ip name name_len [] = (False, [])"
| "cupsdCheckAuth env ip name name_len (m # masks) =
     (case check_mask env ip name name_len m of
        (True, l) \<Rightarrow> (True, l)
      | (False, l) \<Rightarrow> after l (cupsdCheckAuth env ip name name_len masks))"

section \<open>cupsdGetMD5Passwd\<close>

definition isspace :: "char \<Rightarrow> bool" where
  "isspace c = ((of_char c :: nat) = 32 \<or> (9 \<le> (of_char c :: nat) \<and> (of_char c :: nat) \<le> 13))"

definition scan_not_colon :: "string \<Rightarrow> (string \<times> string) option" where
  \<comment> \<open>the conversion \<open>%32[^:]\<close>: the field read and the rest of the input\<close>
  "scan_not_colon s =
     (let f = takeWhile (\<lambda>c. c \<noteq> CHR '':'') (take 32 s)
      in if f = [] then None else Some (f, drop (length f) s))"

definition scan_colon :: "string \<Rightarrow> string option" where
  \<comment> \<open>the literal \<open>:\<close> of the format\<close>
  "scan_colon s = (case s of [] \<Rightarrow> None | c # r \<Rightarrow> if c = CHR '':'' then Some r else None)"

definition scan_word :: "string \<Rightarrow> string option" where
  \<comment> \<open>the conversion \<open>%32s\<close>\<close>
  "scan_word s =
     (let f = takeWhile (\<lambda>c. \<not> isspace c) (take 32 (dropWhile isspace s))
      in if f = [] then None else Some f)"

definition sscanf_md5 :: "string \<Rightarrow> (string \<times> string \<times> string) option" where
  \<comment> \<open>\<open>sscanf(line, "%32[^:]:%32[^:]:%32s", tempuser, tempgroup, passwd) == 3\<close>\<close>
  "sscanf_md5 line =
     (case scan_not_colon line of None \<Rightarrow> None | Some (tempuser, r1) \<Rightarrow>
      case scan_colon r1 of None \<Rightarrow> None | Some r2 \<Rightarrow>
      case scan_not_colon r2 of None \<Rightarrow> None | Some (tempgroup, r3) \<Rightarrow>
      case scan_colon r3 of None \<Rightarrow> None | Some r4 \<Rightarrow>
      case scan_word r4 of None \<Rightarrow> None | Some pass \<Rightarrow> Some (tempuser, tempgroup, pass))"

fun md5_lines :: "string \<Rightarrow> string option \<Rightarrow> string list \<Rightarrow> string option" where
  \<comment> \<open>the loop over the lines of the file, lines 963-984\<close>
  "md5_lines user grp [] = None"
| "md5_lines user grp (line # rest) =
     (case sscanf_md5 line of
        None \<Rightarrow> md5_lines user grp rest
      | Some (tempuser, tempgroup, pass) \<Rightarrow>
          if user = tempuser \<and> (grp = None \<or> grp = Some tempgroup) then Some pass
          else md5_lines user grp rest)"

definition cupsdGetMD5Passwd ::
  "cupsd_env \<Rightarrow> string \<Rightarrow> string option \<Rightarrow> string option \<times> os_call list" where
  \<comment> \<open>\<open>group\<close> may be NULL; the result is the content of \<open>passwd\<close>, or \<open>None\<close> for NULL\<close>
  "cupsdGetMD5Passwd env user grp =
     (case passwd_md5 env of
        None \<Rightarrow> (None, [CALL_cupsFileOpen_passwd_md5])
      | Some file_lines \<Rightarrow> (md5_lines user grp file_lines, [CALL_cupsFileOpen_passwd_md5]))"

section \<open>cupsdCheckGroup\<close>

definition cupsdCheckGroup ::
  "cupsd_env \<Rightarrow> string option \<Rightarrow> passwd option \<Rightarrow> string option \<Rightarrow> bool \<times> os_call list" where
  \<comment> \<open>\<open>username\<close>, \<open>user\<close> and \<open>groupname\<close> are pointers that may be NULL\<close>
  "cupsdCheckGroup env username user groupname =
     (case username of None \<Rightarrow> (False, []) | Some u \<Rightarrow>
      case groupname of None \<Rightarrow> (False, []) | Some g \<Rightarrow>
        (let grp = getgrnam env g
         in after [CALL_getgrnam g]
           (if (case grp of None \<Rightarrow> False
                | Some gr \<Rightarrow> list_ex (\<lambda>m. strcasecmp_eq u m) (gr_mem gr)) then (True, [])
            else if (case user of None \<Rightarrow> False | Some pw \<Rightarrow>
                     case grp of None \<Rightarrow> False | Some gr \<Rightarrow> gr_gid gr = pw_gid pw)
              then (True, [])
            else (case cupsdGetMD5Passwd env u (Some g) of
                    (Some junk, l) \<Rightarrow> (True, l)
                  | (None, l) \<Rightarrow> (False, l)))))"

section \<open>cupsdIsAuthorized\<close>

fun states :: "http_state \<Rightarrow> string" where
  "states HTTP_WAITING = ''WAITING''"
| "states HTTP_OPTIONS = ''OPTIONS''"
| "states HTTP_GET = ''GET''"
| "states HTTP_GET_SEND = ''GET''"
| "states HTTP_HEAD = ''HEAD''"
| "states HTTP_POST = ''POST''"
| "states HTTP_POST_RECV = ''POST''"
| "states HTTP_POST_SEND = ''POST''"
| "states HTTP_PUT = ''PUT''"
| "states HTTP_PUT_RECV = ''PUT''"
| "states HTTP_DELETE = ''DELETE''"
| "states HTTP_TRACE = ''TRACE''"
| "states HTTP_CLOSE = ''CLOSE''"
| "states HTTP_STATUS = ''STATUS''"

definition auth_address :: "cupsd_env \<Rightarrow> cupsd_client \<Rightarrow> ip4" where
  \<comment> \<open>lines 1090-1116: the array \<open>address\<close>\<close>
  "auth_address env con =
     (case con_http_hostaddr con of
        ADDR_INET6 (a0, a1, a2, a3) \<Rightarrow>
          if have_AF_INET6 env then (ntohl env a0, ntohl env a1, ntohl env a2, ntohl env a3)
          else (0, 0, 0, 0)
      | ADDR_INET a \<Rightarrow> (0, 0, 0, ntohl env a)
      | ADDR_OTHER \<Rightarrow> (0, 0, 0, 0))"

definition host_auth ::
  "cupsd_env \<Rightarrow> cupsd_client \<Rightarrow> cupsd_location \<Rightarrow> auth_order \<times> os_call list" where
  \<comment> \<open>lines 1118-1164: the value of \<open>auth\<close>, assigned as the code assigns it.  The
      \<open>default\<close> label of the switch is for values of \<open>order_type\<close> other than the two of
      the enumeration.\<close>
  "host_auth env con loc =
     (let address = auth_address env con;
          hostlen = length (con_http_hostname con)
      in if strcasecmp_eq (con_http_hostname con) ''localhost'' then (AUTH_ALLOW, [])
         else (case order_type loc of
             AUTH_ALLOW \<Rightarrow>
               (let auth0 = AUTH_ALLOW;
                    d = cupsdCheckAuth env address (con_http_hostname con) hostlen (deny loc);
                    auth1 = (if fst d then AUTH_DENY else auth0);
                    a = cupsdCheckAuth env address (con_http_hostname con) hostlen (allow loc);
                    auth2 = (if fst a then AUTH_ALLOW else auth1)
                in (auth2, snd d @ snd a))
           | AUTH_DENY \<Rightarrow>
               (let auth0 = AUTH_DENY;
                    a = cupsdCheckAuth env address (con_http_hostname con) hostlen (allow loc);
                    auth1 = (if fst a then AUTH_ALLOW else auth0);
                    d = cupsdCheckAuth env address (con_http_hostname con) hostlen (deny loc);
                    auth2 = (if fst d then AUTH_DENY else auth1)
                in (auth2, snd a @ snd d))))"

fun md5_system_groups ::
  "cupsd_env \<Rightarrow> string \<Rightarrow> string list \<Rightarrow> string option \<times> os_call list" where
  \<comment> \<open>\<open>for (j = 0; j < NumSystemGroups; j ++) if (cupsdGetMD5Passwd(..., SystemGroups[j],
      md5)) break;\<close>: \<open>Some\<close> when \<open>j < NumSystemGroups\<close> at the end\<close>
  "md5_system_groups env user [] = (None, [])"
| "md5_system_groups env user (g # gs) =
     (case cupsdGetMD5Passwd env user (Some g) of
        (Some md5, l) \<Rightarrow> (Some md5, l)
      | (None, l) \<Rightarrow> after l (md5_system_groups env user gs))"

fun md5_names ::
  "cupsd_env \<Rightarrow> string \<Rightarrow> string list \<Rightarrow> string option \<times> os_call list" where
  \<comment> \<open>the loop over \<open>best->names\<close>, lines 1416-1429 and again 1463-1476: \<open>Some\<close> when
      \<open>i < best->num_names\<close> at the end\<close>
  "md5_names env user [] = (None, [])"
| "md5_names env user (n # ns) =
     (if strcasecmp_eq n ''@SYSTEM'' then
        (case md5_system_groups env user (SystemGroups env) of
           (Some md5, l) \<Rightarrow> (Some md5, l)
         | (None, l) \<Rightarrow> after l (md5_names env user ns))
      else
        (case cupsdGetMD5Passwd env user (Some n) of
           (Some md5, l) \<Rightarrow> (Some md5, l)
         | (None, l) \<Rightarrow> after l (md5_names env user ns)))"

definition md5_lookup ::
  "cupsd_env \<Rightarrow> cupsd_client \<Rightarrow> cupsd_location \<Rightarrow> string \<times> os_call list" where
  \<comment> \<open>lines 1412-1435 and again 1459-1482: the content of \<open>md5\<close>, empty when no entry
      was found\<close>
  "md5_lookup env con loc =
     (if names loc \<noteq> [] \<and> level loc = AUTH_GROUP then
        (case md5_names env (con_username con) (names loc) of
           (Some md5, l) \<Rightarrow> (md5, l)
         | (None, l) \<Rightarrow> ([], l))
      else
        (case cupsdGetMD5Passwd env (con_username con) None of
           (Some md5, l) \<Rightarrow> (md5, l)
         | (None, l) \<Rightarrow> ([], l)))"

definition auth_basic ::
  "cupsd_env \<Rightarrow> cupsd_client \<Rightarrow> (http_status + passwd option) \<times> os_call list" where
  \<comment> \<open>\<open>case AUTH_BASIC\<close>, lines 1249-1387, in its three compiled forms: \<open>Inl\<close> is a
      \<open>return\<close>, \<open>Inr pw\<close> the \<open>break\<close> with the value of \<open>pw\<close>\<close>
  "auth_basic env con =
     (let user = con_username con; pass = con_password con; pw = getpwnam env user
      in after [CALL_getpwnam user]
        (case backend env of
           HAVE_LIBPAM \<Rightarrow>
             (if \<not> pam_start env user
                then (Inl HTTP_UNAUTHORIZED, [CALL_pam_start user, CALL_pam_end])
              else if \<not> pam_authenticate env user pass
                then (Inl HTTP_UNAUTHORIZED,
                      [CALL_pam_start user, CALL_pam_authenticate, CALL_pam_end])
              else if \<not> pam_acct_mgmt env user
                then (Inl HTTP_UNAUTHORIZED,
                      [CALL_pam_start user, CALL_pam_authenticate, CALL_pam_acct_mgmt,
                       CALL_pam_end])
              else (Inr pw,
                    [CALL_pam_start user, CALL_pam_authenticate, CALL_pam_acct_mgmt,
                     CALL_pam_end]))
         | HAVE_USERSEC_H \<Rightarrow>
             (if \<not> authenticate env user pass
                then (Inl HTTP_UNAUTHORIZED, [CALL_authenticate user])
              else (Inr pw, [CALL_authenticate user]))
         | UNIX_PASSWD shadow \<Rightarrow>
             (case pw of
                None \<Rightarrow> (Inl HTTP_UNAUTHORIZED, [])
              | Some p \<Rightarrow>
                  (let spw = (if shadow then getspnam env user else None);
                       l = (if shadow then [CALL_getspnam user] else [])
                   in if shadow \<and> spw = None \<and> pw_passwd p = ''x''
                        then (Inl HTTP_UNAUTHORIZED, l)
                      else if (if shadow
                               then (case spw of None \<Rightarrow> False
                                     | Some sp \<Rightarrow> sp_pwdp sp = [] \<and> pw_passwd p = [])
                               else pw_passwd p = [])
                        then (Inl HTTP_UNAUTHORIZED, l)
                      else if cups_crypt env pass (pw_passwd p) = Some (pw_passwd p)
                        then (Inr pw, l)
                      else (case spw of
                              Some sp \<Rightarrow>
                                if cups_crypt env pass (sp_pwdp sp) = Some (sp_pwdp sp)
                                then (Inr pw, l)
                                else (Inl HTTP_UNAUTHORIZED, l)
                            | None \<Rightarrow> (Inl HTTP_UNAUTHORIZED, l))))))"

definition auth_digest ::
  "cupsd_env \<Rightarrow> cupsd_client \<Rightarrow> cupsd_location
     \<Rightarrow> (http_status + passwd option) \<times> os_call list" where
  \<comment> \<open>\<open>case AUTH_DIGEST\<close>, lines 1389-1452; \<open>pw\<close> stays NULL\<close>
  "auth_digest env con loc =
     (case httpGetSubField env (con_http_authorization con) ''nonce'' of
        None \<Rightarrow> (Inl HTTP_UNAUTHORIZED, [])
      | Some nonce \<Rightarrow>
          if con_http_hostname con \<noteq> nonce then (Inl HTTP_UNAUTHORIZED, [])
          else
            (case md5_lookup env con loc of (md5, l) \<Rightarrow>
               if md5 = [] then (Inl HTTP_UNAUTHORIZED, l)
               else if httpMD5Final env nonce (states (con_http_state con)) (con_uri con) md5
                         \<noteq> con_password con
                 then (Inl HTTP_UNAUTHORIZED, l)
               else (Inr None, l)))"

definition auth_basicdigest ::
  "cupsd_env \<Rightarrow> cupsd_client \<Rightarrow> cupsd_location
     \<Rightarrow> (http_status + passwd option) \<times> os_call list" where
  \<comment> \<open>\<open>case AUTH_BASICDIGEST\<close>, lines 1454-1499; \<open>pw\<close> stays NULL\<close>
  "auth_basicdigest env con loc =
     (case md5_lookup env con loc of (md5, l) \<Rightarrow>
        if md5 = [] then (Inl HTTP_UNAUTHORIZED, l)
        else if md5 \<noteq> httpMD5 env (con_username con) ''CUPS'' (con_password con)
          then (Inl HTTP_UNAUTHORIZED, l)
        else (Inr None, l))"

definition local_certificate :: "cupsd_client \<Rightarrow> bool" where
  \<comment> \<open>the negation of the condition of line 1233\<close>
  "local_certificate con =
     (strcasecmp_eq (con_http_hostname con) ''localhost'' \<and>
      strncmp_eq (con_http_authorization con) ''Local'' 5)"

definition effective_type :: "cupsd_env \<Rightarrow> cupsd_location \<Rightarrow> auth_type" where
  \<comment> \<open>\<open>best->type != AUTH_NONE ? best->type : DefaultAuthType\<close>\<close>
  "effective_type env loc = (if type_l loc \<noteq> AUTH_NONE then type_l loc else DefaultAuthType env)"

definition check_password ::
  "cupsd_env \<Rightarrow> cupsd_client \<Rightarrow> cupsd_location
     \<Rightarrow> (http_status + passwd option) \<times> os_call list" where
  \<comment> \<open>lines 1231-1510: \<open>Inl\<close> is a \<open>return\<close>, \<open>Inr pw\<close> is reaching line 1512 with \<open>pw\<close>\<close>
  "check_password env con loc =
     (if \<not> local_certificate con then
        (if con_password con = [] then (Inl HTTP_UNAUTHORIZED, [])
         else (case effective_type env loc of
                 AUTH_BASIC \<Rightarrow> auth_basic env con
               | AUTH_DIGEST \<Rightarrow> auth_digest env con loc
               | AUTH_BASICDIGEST \<Rightarrow> auth_basicdigest env con loc
               | AUTH_NONE \<Rightarrow> (Inr None, [])))
      else (Inr (getpwnam env (con_username con)), [CALL_getpwnam (con_username con)]))"

fun check_system_groups ::
  "cupsd_env \<Rightarrow> string \<Rightarrow> passwd option \<Rightarrow> string list \<Rightarrow> bool \<times> os_call list" where
  \<comment> \<open>\<open>for (j = 0; j < NumSystemGroups; j ++) if (cupsdCheckGroup(con->username, pw,
      SystemGroups[j])) return (HTTP_OK);\<close>: \<open>True\<close> is the \<open>return\<close>\<close>
  "check_system_groups env user pw [] = (False, [])"
| "check_system_groups env user pw (g # gs) =
     (case cupsdCheckGroup env (Some user) pw (Some g) of
        (True, l) \<Rightarrow> (True, l)
      | (False, l) \<Rightarrow> after l (check_system_groups env user pw gs))"

fun check_user_names ::
  "cupsd_env \<Rightarrow> string \<Rightarrow> string option \<Rightarrow> passwd option \<Rightarrow> string list
     \<Rightarrow> bool \<times> os_call list" where
  \<comment> \<open>the loop of lines 1537-1555: \<open>True\<close> is \<open>return (HTTP_OK)\<close>\<close>
  "check_user_names env user owner pw [] = (False, [])"
| "check_user_names env user owner pw (n # ns) =
     (if strcasecmp_eq n ''@OWNER'' \<and>
         (case owner of None \<Rightarrow> False | Some ow \<Rightarrow> strcasecmp_eq user ow) then (True, [])
      else if strcasecmp_eq n ''@SYSTEM'' then
        (case check_system_groups env user pw (SystemGroups env) of
           (True, l) \<Rightarrow> (True, l)
         | (False, l) \<Rightarrow> after l (check_user_names env user owner pw ns))
      else if first_char_is n CHR ''@'' then
        (case cupsdCheckGroup env (Some user) pw (Some (tl n)) of
           (True, l) \<Rightarrow> (True, l)
         | (False, l) \<Rightarrow> after l (check_user_names env user owner pw ns))
      else if strcasecmp_eq user n then (True, [])
      else check_user_names env user owner pw ns)"

fun check_group_names ::
  "cupsd_env \<Rightarrow> string \<Rightarrow> passwd option \<Rightarrow> string list \<Rightarrow> bool \<times> os_call list" where
  \<comment> \<open>the loop of lines 1572-1585: \<open>True\<close> is \<open>return (HTTP_OK)\<close>\<close>
  "check_group_names env user pw [] = (False, [])"
| "check_group_names env user pw (n # ns) =
     (if strcasecmp_eq n ''@SYSTEM'' then
        (case check_system_groups env user pw (SystemGroups env) of
           (True, l) \<Rightarrow> (True, l)
         | (False, l) \<Rightarrow> after l (check_group_names env user pw ns))
      else
        (case cupsdCheckGroup env (Some user) pw (Some n) of
           (True, l) \<Rightarrow> (True, l)
         | (False, l) \<Rightarrow> after l (check_group_names env user pw ns)))"

definition check_names ::
  "cupsd_env \<Rightarrow> cupsd_client \<Rightarrow> string option \<Rightarrow> cupsd_location \<Rightarrow> passwd option
     \<Rightarrow> http_status \<times> os_call list" where
  \<comment> \<open>lines 1517-1600, after the password has been found good\<close>
  "check_names env con owner loc pw =
     (if con_username con = ''root'' then (HTTP_OK, [])
      else if level loc = AUTH_USER then
        (if names loc = [] then (HTTP_OK, [])
         else (case check_user_names env (con_username con) owner pw (names loc) of
                 (True, l) \<Rightarrow> (HTTP_OK, l)
               | (False, l) \<Rightarrow> (HTTP_UNAUTHORIZED, l)))
      else if type_l loc = AUTH_BASIC then
        (case check_group_names env (con_username con) pw (names loc) of
           (True, l) \<Rightarrow> (HTTP_OK, l)
         | (False, l) \<Rightarrow> (HTTP_UNAUTHORIZED, l))
      else (HTTP_OK, []))"

definition cupsdIsAuthorized ::
  "cupsd_env \<Rightarrow> cupsd_client \<Rightarrow> string option \<Rightarrow> http_status \<times> os_call list" where
  \<comment> \<open>\<open>owner\<close> may be NULL.  The result is the status returned and the calls made.\<close>
  "cupsdIsAuthorized env con owner =
     (case con_best con of
        None \<Rightarrow>
          (if con_http_hostname con = ''localhost'' \<or> con_http_hostname con = ServerName env
           then (HTTP_OK, [])
           else (HTTP_FORBIDDEN, []))
      | Some loc \<Rightarrow>
          (case host_auth env con loc of (auth, l) \<Rightarrow>
             if auth = AUTH_DENY \<and> satisfy loc = AUTH_SATISFY_ALL then (HTTP_FORBIDDEN, l)
             else if HAVE_SSL env \<and> encryption loc \<ge> HTTP_ENCRYPT_REQUIRED env \<and>
                     \<not> con_http_tls con
               then (HTTP_UPGRADE_REQUIRED, l)
             else if level loc = AUTH_ANON \<or> (type_l loc = AUTH_NONE \<and> names loc = [])
               then (HTTP_OK, l)
             else if type_l loc = AUTH_NONE \<and> limit loc = AUTH_LIMIT_IPP (auth_limit env) \<and>
                     con_requesting_user_name con \<noteq> None
               then (HTTP_OK, l)
             else if con_username con = [] then
               (if satisfy loc = AUTH_SATISFY_ALL \<or> auth = AUTH_DENY
                then (HTTP_UNAUTHORIZED, l)
                else (HTTP_OK, l))
             else after l
               (case check_password env con loc of
                  (Inl status, l2) \<Rightarrow> (status, l2)
                | (Inr pw, l2) \<Rightarrow> after l2 (check_names env con owner loc pw))))"

section \<open>Notions used to state the properties\<close>

subsection \<open>Location table\<close>

definition zero_location :: "nat \<Rightarrow> string \<Rightarrow> cupsd_location" where
  \<comment> \<open>the record cupsdAddLocation leaves at the end of \<open>Locations\<close> (lines 134-136): all
      bytes zero, then the path copied into \<open>location[HTTP_MAX_URI]\<close> and measured\<close>
  "zero_location max_uri path =
     \<lparr> location = strlcpy path max_uri,
       length_l = length (strlcpy path max_uri),
       limit = 0, order_type = AUTH_ALLOW, type_l = AUTH_NONE, level = AUTH_ANON,
       satisfy = AUTH_SATISFY_ALL, names = [], allow = [], deny = [], encryption = 0 \<rparr>"

definition loc_wf :: "cupsd_location \<Rightarrow> bool" where
  \<comment> \<open>what cupsdAddLocation establishes and nothing in auth.c changes\<close>
  "loc_wf loc = (length_l loc = length (location loc))"

definition path_prefix :: "bool \<Rightarrow> string \<Rightarrow> string \<Rightarrow> bool" where
  \<comment> \<open>\<open>p\<close> is a prefix of \<open>u\<close>; with \<open>ci\<close>, up to the case of letters\<close>
  "path_prefix ci p u = (if ci then prefix (map tolower p) (map tolower u) else prefix p u)"

definition loc_matches :: "string \<Rightarrow> u32 \<Rightarrow> cupsd_location \<Rightarrow> bool" where
  \<comment> \<open>the location is a candidate for the URI \<open>u\<close> and the verb bits \<open>lim\<close>: its path is a
      prefix of \<open>u\<close> (up to case for a queue URI), begins with a slash, and its verb mask
      meets \<open>lim\<close>\<close>
  "loc_matches u lim loc =
     (path_prefix (queue_uri u) (location loc) u \<and>
      first_char_is (location loc) CHR ''/'' \<and>
      lim AND limit loc \<noteq> 0)"

definition best_len :: "cupsd_location option \<Rightarrow> nat" where
  "best_len b = (case b of None \<Rightarrow> 0 | Some l \<Rightarrow> length (location l))"

fun longest_prefix_scan ::
  "bool \<Rightarrow> string \<Rightarrow> u32 \<Rightarrow> cupsd_location list \<Rightarrow> cupsd_location option
     \<Rightarrow> cupsd_location option" where
  \<comment> \<open>the scan as the specification words it (section 4.3, steps 2 to 5), the case policy
      \<open>ci\<close> being a parameter: a location replaces the best one so far when its path begins
      with a slash, its verb mask meets the verb, it is longer, and it is a prefix\<close>
  "longest_prefix_scan ci u lim [] b = b"
| "longest_prefix_scan ci u lim (loc # locs) b =
     (if first_char_is (location loc) CHR ''/'' \<and> lim AND limit loc \<noteq> 0 \<and>
         length (location loc) > best_len b \<and> path_prefix ci (location loc) u
      then longest_prefix_scan ci u lim locs (Some loc)
      else longest_prefix_scan ci u lim locs b)"

definition ends_ppd :: "string \<Rightarrow> bool" where
  "ends_ppd p = suffix ''.ppd'' p"

definition cut4 :: "string \<Rightarrow> string" where
  \<comment> \<open>the path without its last four bytes\<close>
  "cut4 p = take (length p - 4) p"

subsection \<open>Group membership\<close>

definition os_group_member :: "cupsd_env \<Rightarrow> string \<Rightarrow> string \<Rightarrow> bool" where
  \<comment> \<open>the system group \<open>g\<close> exists and lists \<open>u\<close>, up to the case of letters\<close>
  "os_group_member env u g =
     (case getgrnam env g of None \<Rightarrow> False
      | Some gr \<Rightarrow> list_ex (\<lambda>m. map tolower u = map tolower m) (gr_mem gr))"

definition primary_gid_match :: "cupsd_env \<Rightarrow> passwd option \<Rightarrow> string \<Rightarrow> bool" where
  \<comment> \<open>a user record is supplied, the system group \<open>g\<close> exists and its id is the primary
      group id of the user\<close>
  "primary_gid_match env pw g =
     (case pw of None \<Rightarrow> False | Some p \<Rightarrow>
      case getgrnam env g of None \<Rightarrow> False | Some gr \<Rightarrow> pw_gid p = gr_gid gr)"

definition entry_of :: "string \<Rightarrow> string \<Rightarrow> string \<Rightarrow> bool" where
  \<comment> \<open>the line is a record of the three-field pattern for user \<open>u\<close> and group \<open>g\<close>\<close>
  "entry_of u g line =
     (case sscanf_md5 line of None \<Rightarrow> False | Some (tu, tg, pass) \<Rightarrow> tu = u \<and> tg = g)"

definition md5_entry :: "cupsd_env \<Rightarrow> string \<Rightarrow> string \<Rightarrow> bool" where
  \<comment> \<open>passwd.md5 can be read and holds an entry \<open>(u, g, *)\<close>\<close>
  "md5_entry env u g =
     (case passwd_md5 env of None \<Rightarrow> False
      | Some file_lines \<Rightarrow> list_ex (entry_of u g) file_lines)"

definition field_ok :: "string \<Rightarrow> bool" where
  \<comment> \<open>a user or group field of the file: one to 32 bytes, no colon\<close>
  "field_ok f = (f \<noteq> [] \<and> length f \<le> 32 \<and> CHR '':'' \<notin> set f)"

definition hash_ok :: "string \<Rightarrow> bool" where
  \<comment> \<open>a third field: one to 32 bytes, no white space\<close>
  "hash_ok h = (h \<noteq> [] \<and> length h \<le> 32 \<and> \<not> list_ex isspace h)"

definition md5_line :: "string \<Rightarrow> string \<Rightarrow> string \<Rightarrow> string" where
  \<comment> \<open>the line \<open>user:group:md5\<close>\<close>
  "md5_line u g h = u @ '':'' @ g @ '':'' @ h"

subsection \<open>Stages of cupsdIsAuthorized\<close>

definition is_netif_call :: "os_call \<Rightarrow> bool" where
  \<comment> \<open>a call to the interface registry, as opposed to the account databases, PAM and
      passwd.md5\<close>
  "is_netif_call c =
     (case c of CALL_cupsdNetIFUpdate \<Rightarrow> True | CALL_NetIFFind ifname \<Rightarrow> True | _ \<Rightarrow> False)"

definition encryption_met :: "cupsd_env \<Rightarrow> cupsd_client \<Rightarrow> cupsd_location \<Rightarrow> bool" where
  \<comment> \<open>the test of line 1177 does not fire\<close>
  "encryption_met env con loc =
     (\<not> (HAVE_SSL env \<and> encryption loc \<ge> HTTP_ENCRYPT_REQUIRED env \<and> \<not> con_http_tls con))"

definition passes_early_steps :: "cupsd_env \<Rightarrow> cupsd_client \<Rightarrow> cupsd_location \<Rightarrow> bool" where
  \<comment> \<open>none of the \<open>return\<close>s of lines 1169-1221 is taken: host filter with Satisfy,
      encryption, anonymous access, unauthenticated IPP user name, empty user name\<close>
  "passes_early_steps env con loc =
     (\<not> (fst (host_auth env con loc) = AUTH_DENY \<and> satisfy loc = AUTH_SATISFY_ALL) \<and>
      \<not> (HAVE_SSL env \<and> encryption loc \<ge> HTTP_ENCRYPT_REQUIRED env \<and> \<not> con_http_tls con) \<and>
      \<not> (level loc = AUTH_ANON \<or> (type_l loc = AUTH_NONE \<and> names loc = [])) \<and>
      \<not> (type_l loc = AUTH_NONE \<and> limit loc = AUTH_LIMIT_IPP (auth_limit env) \<and>
         con_requesting_user_name con \<noteq> None) \<and>
      con_username con \<noteq> [])"

definition credentials_valid :: "cupsd_env \<Rightarrow> cupsd_client \<Rightarrow> cupsd_location \<Rightarrow> bool" where
  \<comment> \<open>a user name is given and the password check of lines 1231-1510 finds it good\<close>
  "credentials_valid env con loc =
     (con_username con \<noteq> [] \<and>
      (case fst (check_password env con loc) of Inr pw \<Rightarrow> True | Inl status \<Rightarrow> False))"

definition principal_ok ::
  "cupsd_env \<Rightarrow> cupsd_client \<Rightarrow> string option \<Rightarrow> cupsd_location \<Rightarrow> bool" where
  \<comment> \<open>the user and group check of lines 1517-1600 accepts the verified user\<close>
  "principal_ok env con owner loc =
     (case fst (check_password env con loc) of
        Inr pw \<Rightarrow> fst (check_names env con owner loc pw) = HTTP_OK
      | Inl status \<Rightarrow> False)"

section \<open>Concrete values for the instances\<close>

definition ex_limits :: auth_limits where
  \<comment> \<open>the values CUPS gives the constants\<close>
  "ex_limits =
     \<lparr> AUTH_LIMIT_ALL = 127, AUTH_LIMIT_OPTIONS = 8, AUTH_LIMIT_GET = 2, AUTH_LIMIT_HEAD = 4,
       AUTH_LIMIT_POST = 16, AUTH_LIMIT_PUT = 32, AUTH_LIMIT_DELETE = 1, AUTH_LIMIT_TRACE = 64,
       AUTH_LIMIT_IPP = 128 \<rparr>"

definition ex_loc :: "string \<Rightarrow> u32 \<Rightarrow> cupsd_location" where
  "ex_loc path lim = (zero_location 1024 path)\<lparr> limit := lim \<rparr>"

definition ex_env :: cupsd_env where
  \<comment> \<open>a PAM build with SSL on a big-endian host: user alice with password secret, a
      system group OWNER that lists alice, and a passwd.md5 with one entry for carol\<close>
  "ex_env =
     \<lparr> have_AF_INET6 = True, HAVE_SSL = True, backend = HAVE_LIBPAM,
       htonl = (\<lambda>w. w), ntohl = (\<lambda>w. w),
       HTTP_ENCRYPT_REQUIRED = 2, auth_limit = ex_limits,
       ServerName = ''printhost'', DefaultAuthType = AUTH_BASIC, SystemGroups = [''sys''],
       NetIFList = [], NetIFFind = (\<lambda>n. None),
       getgrnam = (\<lambda>g. if g = ''OWNER'' then Some \<lparr> gr_mem = [''alice''], gr_gid = 7 \<rparr>
                        else None),
       getpwnam = (\<lambda>u. if u = ''alice'' then Some \<lparr> pw_passwd = ''x'', pw_gid = 100 \<rparr>
                        else None),
       getspnam = (\<lambda>u. None),
       pam_start = (\<lambda>u. True),
       pam_authenticate = (\<lambda>u p. u = ''alice'' \<and> p = ''secret''),
       pam_acct_mgmt = (\<lambda>u. True),
       authenticate = (\<lambda>u p. False),
       cups_crypt = (\<lambda>p s. None),
       passwd_md5 = Some [''carol:staff:0123456789abcdef0123456789abcdef''],
       httpGetSubField = (\<lambda>v n. None),
       httpMD5Final = (\<lambda>nonce method resource md5. md5),
       httpMD5 = (\<lambda>u realm p. []) \<rparr>"

definition ex_con :: cupsd_client where
  \<comment> \<open>alice with her password, from 10.1.2.3, without TLS, no location chosen yet\<close>
  "ex_con =
     \<lparr> con_best = None, con_uri = ''/admin/'', con_username = ''alice'',
       con_password = ''secret'', con_http_hostname = ''client.example.com'',
       con_http_hostaddr = ADDR_INET 0x0A010203, con_http_tls = False,
       con_http_state = HTTP_GET, con_http_authorization = ''Basic YWxpY2U6c2VjcmV0'',
       con_requesting_user_name = None \<rparr>"

definition ex_owner_loc :: cupsd_location where
  \<comment> \<open>\<open>AuthType Basic\<close>, \<open>Require user @OWNER\<close>\<close>
  "ex_owner_loc =
     (ex_loc ''/jobs'' 127)\<lparr> level := AUTH_USER, type_l := AUTH_BASIC, names := [''@OWNER''] \<rparr>"

definition ex_net_loc :: cupsd_location where
  \<comment> \<open>\<open>Allow from 10.0.0.0/8\<close>, \<open>Deny from 10.1.0.0/16\<close>\<close>
  "ex_net_loc =
     (ex_loc ''/admin'' 127)
       \<lparr> allow := [AUTH_IP (0, 0, 0, 0x0A000000) (0, 0, 0, 0xFF000000)],
         deny := [AUTH_IP (0, 0, 0, 0x0A010000) (0, 0, 0, 0xFFFF0000)] \<rparr>"

definition ex_any_loc :: cupsd_location where
  \<comment> \<open>\<open>Order Allow,Deny\<close> with empty lists (every host is denied), \<open>Satisfy Any\<close>,
      \<open>AuthType Basic\<close>, \<open>Require valid-user\<close>, \<open>Encryption Required\<close>\<close>
  "ex_any_loc =
     (ex_loc ''/admin'' 127)
       \<lparr> order_type := AUTH_DENY, satisfy := AUTH_SATISFY_ANY, level := AUTH_USER,
         type_l := AUTH_BASIC, encryption := 2 \<rparr>"

definition ex_digest_loc :: cupsd_location where
  \<comment> \<open>\<open>AuthType Digest\<close>, \<open>AuthClass Group\<close>, \<open>AuthGroupName staff\<close>\<close>
  "ex_digest_loc =
     (ex_loc ''/admin'' 127)
       \<lparr> level := AUTH_GROUP, type_l := AUTH_DIGEST, names := [''staff''] \<rparr>"

definition ex_digest_con :: cupsd_client where
  \<comment> \<open>carol with the response that \<open>httpMD5Final\<close> of \<open>ex_env\<close> gives for her entry\<close>
  "ex_digest_con =
     ex_con\<lparr> con_best := Some ex_digest_loc, con_username := ''carol'',
             con_password := ''0123456789abcdef0123456789abcdef'',
             con_http_authorization := ''Digest username=carol'' \<rparr>"

definition ex_env_nonce :: "string \<Rightarrow> cupsd_env" where
  \<comment> \<open>\<open>ex_env\<close> for an Authorization header whose nonce subfield is \<open>x\<close>\<close>
  "ex_env_nonce x =
     ex_env\<lparr> httpGetSubField := (\<lambda>v n. if n = ''nonce'' then Some x else None) \<rparr>"

section \<open>Properties of cupsdFindBest\<close>

lemma take_length_eq_prefix: "(take (length p) u = p) = prefix p u"
  by (metis append_eq_conv_conj prefix_def take_is_prefix)

lemma strncmp_eq_prefix: "strncmp_eq u p (length p) = prefix p u"
  unfolding strncmp_eq_def using take_length_eq_prefix[of p u] by simp

lemma strncasecmp_eq_prefix:
  "strncasecmp_eq u p (length p) = prefix (map tolower p) (map tolower u)"
proof -
  have "map tolower (take (length p) u) = take (length (map tolower p)) (map tolower u)"
    by (simp add: take_map)
  then show ?thesis
    unfolding strncasecmp_eq_def using take_length_eq_prefix[of "map tolower p" "map tolower u"]
    by simp
qed

lemma loc_better_matches:
  "loc_wf loc \<Longrightarrow>
   loc_better u lim n loc = (n < length (location loc) \<and> loc_matches u lim loc)"
  by (auto simp: loc_wf_def loc_better_def loc_matches_def path_prefix_def
        strncmp_eq_prefix strncasecmp_eq_prefix)

text \<open>The loop of the code is the scan of the specification, under the case policy
  that the URI selects.\<close>

lemma find_best_loop_scan:
  "list_all loc_wf locs \<Longrightarrow>
   find_best_loop u lim locs b (best_len b) = longest_prefix_scan (queue_uri u) u lim locs b"
proof (induction locs arbitrary: b)
  case Nil
  show ?case by simp
next
  case (Cons loc locs)
  then have wf: "loc_wf loc" and wfs: "list_all loc_wf locs" by simp_all
  have len: "length_l loc = best_len (Some loc)"
    using wf by (simp add: loc_wf_def best_len_def)
  show ?case
    using Cons.IH[OF wfs, of "Some loc"] Cons.IH[OF wfs, of b] len
    by (auto simp: loc_better_matches[OF wf] loc_matches_def)
qed

lemma scan_inv:
  "longest_prefix_scan (queue_uri u) u lim locs b = r \<Longrightarrow>
   (r = b \<or> (\<exists>l \<in> set locs. r = Some l \<and> loc_matches u lim l)) \<and>
   best_len b \<le> best_len r \<and>
   (\<forall>l \<in> set locs. loc_matches u lim l \<longrightarrow> length (location l) \<le> best_len r)"
proof (induction locs arbitrary: b)
  case Nil
  then show ?case by simp
next
  case (Cons loc locs)
  show ?case
  proof (cases "loc_matches u lim loc \<and> best_len b < length (location loc)")
    case True
    then have r: "longest_prefix_scan (queue_uri u) u lim locs (Some loc) = r"
      using Cons.prems by (simp add: loc_matches_def)
    from Cons.IH[OF r] True show ?thesis
      by (auto simp: best_len_def)
  next
    case False
    then have r: "longest_prefix_scan (queue_uri u) u lim locs b = r"
      using Cons.prems by (auto simp: loc_matches_def)
    from False have "loc_matches u lim loc \<Longrightarrow> length (location loc) \<le> best_len b"
      by auto
    with Cons.IH[OF r] show ?thesis
      by auto
  qed
qed

lemma strlcpy_short: "length path < max_uri \<Longrightarrow> strlcpy path max_uri = path"
  by (simp add: strlcpy_def)

lemma cupsdFindBest_scan:
  assumes "list_all loc_wf Locations" "length path < max_uri"
  shows "cupsdFindBest lc max_uri Locations path st =
         longest_prefix_scan (queue_uri (drop_ppd path)) (drop_ppd path) (limits lc st)
           Locations None"
  using find_best_loop_scan[OF assms(1), of "drop_ppd path" "limits lc st" None] assms(2)
  by (simp add: cupsdFindBest_def strlcpy_short best_len_def)

lemma first_char_nonempty: "first_char_is s c \<Longrightarrow> s \<noteq> []"
  by (cases s) (simp_all add: first_char_is_def)

lemma scan_None_iff:
  "(longest_prefix_scan (queue_uri u) u lim locs None = None) =
   (\<not> list_ex (loc_matches u lim) locs)"
proof
  assume n: "longest_prefix_scan (queue_uri u) u lim locs None = None"
  have "\<forall>l \<in> set locs. loc_matches u lim l \<longrightarrow> length (location l) \<le> 0"
    using scan_inv[OF n] by (simp add: best_len_def)
  moreover have "\<And>l. loc_matches u lim l \<Longrightarrow> 0 < length (location l)"
    using first_char_nonempty by (auto simp: loc_matches_def)
  ultimately show "\<not> list_ex (loc_matches u lim) locs"
    by (fastforce simp: list_ex_iff)
next
  assume "\<not> list_ex (loc_matches u lim) locs"
  then show "longest_prefix_scan (queue_uri u) u lim locs None = None"
    using scan_inv[OF refl, of u lim locs None] by (auto simp: list_ex_iff)
qed

lemma zero_location_wf: "loc_wf (zero_location max_uri path)"
  by (simp add: loc_wf_def zero_location_def)

lemmas find_best_eval =
  cupsdFindBest_def strlcpy_def drop_ppd_def queue_uri_def strncmp_eq_def strncasecmp_eq_def
  loc_better_def first_char_is_def tolower_def isupper_def zero_location_def ex_loc_def
  ex_limits_def loc_wf_def

text \<open>
  Claim C3.  Let every record of the table have its \<open>length\<close> field equal to the length
  of its path, as cupsdAddLocation leaves it, and let the request path fit the buffer
  \<open>uri[HTTP_MAX_URI]\<close>.  Then cupsdFindBest returns nothing exactly when no location of
  the table is a candidate; otherwise it returns a location of the table that is a
  candidate and whose path is at least as long as the path of every candidate.  A
  candidate is a location whose path is a prefix of the request path after the \<open>.ppd\<close>
  cut (the prefix comparison being the one of the code: byte by byte, and without
  regard to the case of letters for a queue URI), whose path begins with a slash, and
  whose verb mask has a bit in common with the verb of the request.  In particular, let
  \<open>p1\<close> and \<open>p2\<close> be two locations of the table whose paths both pass the prefix
  comparison and begin with a slash, the path of \<open>p1\<close> being a proper prefix of the path
  of \<open>p2\<close>, and let no other location of the table be a candidate (as in a table of
  just the two, in either order): the result is \<open>p2\<close> if and only if the verb mask of
  \<open>p2\<close> meets the verb, and when it does not, the result is \<open>p1\<close> if the verb mask of
  \<open>p1\<close> meets the verb.
\<close>

theorem cupsdFindBest_longest_prefix:
  assumes wf: "list_all loc_wf Locations" and len: "length path < max_uri"
  shows
  "(case cupsdFindBest lc max_uri Locations path st of
      None \<Rightarrow> \<not> list_ex (loc_matches (drop_ppd path) (limits lc st)) Locations
    | Some b \<Rightarrow>
        b \<in> set Locations \<and> loc_matches (drop_ppd path) (limits lc st) b \<and>
        (\<forall>l \<in> set Locations. loc_matches (drop_ppd path) (limits lc st) l \<longrightarrow>
           length (location l) \<le> length (location b))) \<and>
   (\<forall>p1 p2.
      p1 \<in> set Locations \<and> p2 \<in> set Locations \<and>
      list_all (\<lambda>l. l = p1 \<or> l = p2 \<or> \<not> loc_matches (drop_ppd path) (limits lc st) l)
        Locations \<and>
      strict_prefix (location p1) (location p2) \<and>
      path_prefix (queue_uri (drop_ppd path)) (location p1) (drop_ppd path) \<and>
      path_prefix (queue_uri (drop_ppd path)) (location p2) (drop_ppd path) \<and>
      first_char_is (location p1) CHR ''/'' \<and> first_char_is (location p2) CHR ''/'' \<longrightarrow>
      ((cupsdFindBest lc max_uri Locations path st = Some p2) =
         (limits lc st AND limit p2 \<noteq> 0)) \<and>
      (limits lc st AND limit p2 = 0 \<longrightarrow> limits lc st AND limit p1 \<noteq> 0 \<longrightarrow>
         cupsdFindBest lc max_uri Locations path st = Some p1))"
proof -
  let ?u = "drop_ppd path" and ?lim = "limits lc st"
  let ?r = "cupsdFindBest lc max_uri Locations path st"
  have scan: "?r = longest_prefix_scan (queue_uri ?u) ?u ?lim Locations None"
    by (rule cupsdFindBest_scan[OF wf len])
  have inv: "(?r = None \<or> (\<exists>l \<in> set Locations. ?r = Some l \<and> loc_matches ?u ?lim l)) \<and>
             (\<forall>l \<in> set Locations. loc_matches ?u ?lim l \<longrightarrow> length (location l) \<le> best_len ?r)"
    using scan_inv[OF scan[symmetric]] by simp
  have none: "(?r = None) = (\<not> list_ex (loc_matches ?u ?lim) Locations)"
    using scan_None_iff[of ?u ?lim Locations] scan by simp
  have part1: "case ?r of
      None \<Rightarrow> \<not> list_ex (loc_matches ?u ?lim) Locations
    | Some b \<Rightarrow> b \<in> set Locations \<and> loc_matches ?u ?lim b \<and>
        (\<forall>l \<in> set Locations. loc_matches ?u ?lim l \<longrightarrow>
           length (location l) \<le> length (location b))"
  proof (cases ?r)
    case None
    then show ?thesis using none by simp
  next
    case (Some b)
    then show ?thesis using inv by (auto simp: best_len_def)
  qed
  have part2: "((?r = Some p2) = (?lim AND limit p2 \<noteq> 0)) \<and>
      (?lim AND limit p2 = 0 \<longrightarrow> ?lim AND limit p1 \<noteq> 0 \<longrightarrow> ?r = Some p1)"
    if in1: "p1 \<in> set Locations" and in2: "p2 \<in> set Locations"
      and others: "list_all (\<lambda>l. l = p1 \<or> l = p2 \<or> \<not> loc_matches ?u ?lim l) Locations"
      and sp: "strict_prefix (location p1) (location p2)"
      and m1: "path_prefix (queue_uri ?u) (location p1) ?u"
      and m2: "path_prefix (queue_uri ?u) (location p2) ?u"
      and f1: "first_char_is (location p1) CHR ''/''"
      and f2: "first_char_is (location p2) CHR ''/''"
    for p1 p2
  proof -
    have lt: "length (location p1) < length (location p2)"
      using sp by (metis prefix_length_less)
    have two: "l = p1 \<or> l = p2" if "l \<in> set Locations" "loc_matches ?u ?lim l" for l
      using others that by (auto simp: list_all_iff)
    have mp1: "loc_matches ?u ?lim p1 = (?lim AND limit p1 \<noteq> 0)"
      and mp2: "loc_matches ?u ?lim p2 = (?lim AND limit p2 \<noteq> 0)"
      using m1 m2 f1 f2 by (simp_all add: loc_matches_def)
    show ?thesis
    proof (cases "?lim AND limit p2 \<noteq> 0")
      case True
      then have "list_ex (loc_matches ?u ?lim) Locations"
        using mp2 in2 by (auto simp: list_ex_iff)
      then obtain b where b: "?r = Some b" using none by auto
      then have "b \<in> set Locations" "loc_matches ?u ?lim b"
        and "length (location p2) \<le> length (location b)"
        using part1 in2 mp2 True by auto
      then have "b = p2" using lt two[of b] by auto
      with b True show ?thesis by simp
    next
      case False
      then have n2: "?r \<noteq> Some p2" using part1 mp2 by (cases ?r) auto
      have "?lim AND limit p1 \<noteq> 0 \<Longrightarrow> ?r = Some p1"
      proof -
        assume "?lim AND limit p1 \<noteq> 0"
        then have "list_ex (loc_matches ?u ?lim) Locations"
          using mp1 in1 by (auto simp: list_ex_iff)
        then obtain b where b: "?r = Some b" using none by auto
        then have "b \<in> set Locations" "loc_matches ?u ?lim b" using part1 by auto
        then have "b = p1 \<or> b = p2" by (rule two)
        with n2 b show ?thesis by auto
      qed
      with False n2 show ?thesis by simp
    qed
  qed
  show ?thesis using part1 part2 by blast
qed

text \<open>An instance: the table holds \<open>/\<close> for every verb and \<open>/admin\<close> for GET only.  A
  GET of \<open>/admin/conf\<close> is governed by \<open>/admin\<close>, a POST of it by \<open>/\<close>.\<close>

theorem cupsdFindBest_longest_prefix_witness:
  "list_all loc_wf [ex_loc ''/'' 127, ex_loc ''/admin'' 2] \<and>
   length ''/admin/conf'' < (1024 :: nat) \<and>
   strict_prefix (location (ex_loc ''/'' 127)) (location (ex_loc ''/admin'' 2)) \<and>
   cupsdFindBest ex_limits 1024 [ex_loc ''/'' 127, ex_loc ''/admin'' 2] ''/admin/conf'' HTTP_GET
     = Some (ex_loc ''/admin'' 2) \<and>
   cupsdFindBest ex_limits 1024 [ex_loc ''/'' 127, ex_loc ''/admin'' 2] ''/admin/conf'' HTTP_POST
     = Some (ex_loc ''/'' 127)"
proof -
  have wf: "list_all loc_wf [ex_loc ''/'' 127, ex_loc ''/admin'' 2]"
    by (simp add: find_best_eval)
  have len: "length ''/admin/conf'' < (1024 :: nat)" by simp
  have sp: "strict_prefix (location (ex_loc ''/'' 127)) (location (ex_loc ''/admin'' 2))"
    by (simp add: find_best_eval strict_prefix_def)
  note t = cupsdFindBest_longest_prefix[OF wf len, of ex_limits]
  have pre: "path_prefix (queue_uri (drop_ppd ''/admin/conf'')) (location (ex_loc ''/'' 127))
               (drop_ppd ''/admin/conf'') \<and>
             path_prefix (queue_uri (drop_ppd ''/admin/conf'')) (location (ex_loc ''/admin'' 2))
               (drop_ppd ''/admin/conf'') \<and>
             first_char_is (location (ex_loc ''/'' 127)) CHR ''/'' \<and>
             first_char_is (location (ex_loc ''/admin'' 2)) CHR ''/''"
    by (simp add: find_best_eval path_prefix_def)
  have mem: "ex_loc ''/'' 127 \<in> set [ex_loc ''/'' 127, ex_loc ''/admin'' 2] \<and>
             ex_loc ''/admin'' 2 \<in> set [ex_loc ''/'' 127, ex_loc ''/admin'' 2] \<and>
             list_all (\<lambda>l. l = ex_loc ''/'' 127 \<or> l = ex_loc ''/admin'' 2 \<or>
                          \<not> loc_matches (drop_ppd ''/admin/conf'') (limits ex_limits st) l)
               [ex_loc ''/'' 127, ex_loc ''/admin'' 2]" for st
    by simp
  have g: "cupsdFindBest ex_limits 1024 [ex_loc ''/'' 127, ex_loc ''/admin'' 2] ''/admin/conf''
             HTTP_GET = Some (ex_loc ''/admin'' 2)"
  proof -
    have "limits ex_limits HTTP_GET AND limit (ex_loc ''/admin'' 2) \<noteq> 0"
      by (simp add: find_best_eval)
    with t[of HTTP_GET] sp pre mem[of HTTP_GET] show ?thesis by blast
  qed
  have p: "cupsdFindBest ex_limits 1024 [ex_loc ''/'' 127, ex_loc ''/admin'' 2] ''/admin/conf''
             HTTP_POST = Some (ex_loc ''/'' 127)"
  proof -
    have "limits ex_limits HTTP_POST AND limit (ex_loc ''/admin'' 2) = 0"
      and "limits ex_limits HTTP_POST AND limit (ex_loc ''/'' 127) \<noteq> 0"
      by (simp_all add: find_best_eval)
    with t[of HTTP_POST] sp pre mem[of HTTP_POST] show ?thesis by blast
  qed
  show ?thesis using wf len sp g p by blast
qed

subsection \<open>The \<open>.ppd\<close> extension\<close>

lemma take_append_no_dot:
  assumes t: "take n (q @ ''.ppd'') = pre" and n: "length pre = n"
    and nd: "CHR ''.'' \<notin> set pre"
  shows "take n q = pre"
proof -
  have "n \<le> length q"
  proof (rule ccontr)
    assume "\<not> n \<le> length q"
    then have lq: "length q < n" by simp
    have "pre ! length q = (q @ ''.ppd'') ! length q"
      using t lq by (metis nth_take)
    also have "\<dots> = CHR ''.''" by (simp add: nth_append)
    finally have "CHR ''.'' \<in> set pre" using lq n by (metis nth_mem)
    with nd show False by simp
  qed
  then show ?thesis using t by simp
qed

lemma queue_uri_cut4:
  assumes "queue_uri p" "ends_ppd p"
  shows "queue_uri (cut4 p)"
proof -
  from assms(2) obtain q where p: "p = q @ ''.ppd''"
    by (auto simp: ends_ppd_def suffix_def)
  have c: "cut4 p = q" by (simp add: p cut4_def)
  from assms(1) consider "take 10 p = ''/printers/''" | "take 9 p = ''/classes/''"
    by (auto simp: queue_uri_def strncmp_eq_def)
  then show ?thesis
  proof cases
    case 1
    then have "take 10 q = ''/printers/''"
      using take_append_no_dot[of 10 q "''/printers/''"] by (simp add: p)
    then show ?thesis by (simp add: c queue_uri_def strncmp_eq_def)
  next
    case 2
    then have "take 9 q = ''/classes/''"
      using take_append_no_dot[of 9 q "''/classes/''"] by (simp add: p)
    then show ?thesis by (simp add: c queue_uri_def strncmp_eq_def)
  qed
qed

lemma drop_ppd_queue:
  assumes "queue_uri p" "ends_ppd p"
  shows "drop_ppd p = cut4 p"
proof -
  from assms(2) obtain q where p: "p = q @ ''.ppd''"
    by (auto simp: ends_ppd_def suffix_def)
  show ?thesis using assms(1) by (simp add: drop_ppd_def cut4_def p)
qed

lemma drop_ppd_no_suffix: "\<not> ends_ppd p \<Longrightarrow> drop_ppd p = p"
proof -
  assume n: "\<not> ends_ppd p"
  have "drop (length p - 4) p \<noteq> ''.ppd''"
  proof
    assume "drop (length p - 4) p = ''.ppd''"
    then have "suffix ''.ppd'' p" by (metis suffix_drop)
    with n show False by (simp add: ends_ppd_def)
  qed
  then show ?thesis by (simp add: drop_ppd_def)
qed

lemma drop_ppd_not_queue: "\<not> queue_uri p \<Longrightarrow> drop_ppd p = p"
  by (simp add: drop_ppd_def)

lemma cupsdFindBest_cong:
  "length p < max_uri \<Longrightarrow> length p' < max_uri \<Longrightarrow> drop_ppd p = drop_ppd p' \<Longrightarrow>
   cupsdFindBest lc max_uri locs p st = cupsdFindBest lc max_uri locs p' st"
  by (simp add: cupsdFindBest_def strlcpy_short)

text \<open>
  Claim C9, as the code has it.  Let the table be well formed and the path fit the
  buffer.  For a path that begins with \<open>/printers/\<close> or \<open>/classes/\<close> and ends in \<open>.ppd\<close>,
  cupsdFindBest returns what the scan of the specification returns on the path without
  its last four bytes, with prefix comparison up to the case of letters; and it returns
  what cupsdFindBest itself returns on the shortened path, provided the shortened path
  does not end in \<open>.ppd\<close> again (one extension is cut, not two).  For a path that begins
  with neither prefix, cupsdFindBest returns what the scan returns on the whole path with
  byte-wise prefix comparison.
\<close>

theorem cupsdFindBest_ppd_suffix:
  assumes wf: "list_all loc_wf Locations" and len: "length path < max_uri"
  shows
  "(queue_uri path \<and> ends_ppd path \<longrightarrow>
      cupsdFindBest lc max_uri Locations path st =
        longest_prefix_scan True (cut4 path) (limits lc st) Locations None \<and>
      (\<not> ends_ppd (cut4 path) \<longrightarrow>
         cupsdFindBest lc max_uri Locations path st =
         cupsdFindBest lc max_uri Locations (cut4 path) st)) \<and>
   (\<not> queue_uri path \<longrightarrow>
      cupsdFindBest lc max_uri Locations path st =
        longest_prefix_scan False path (limits lc st) Locations None)"
proof -
  have a: "cupsdFindBest lc max_uri Locations path st =
        longest_prefix_scan True (cut4 path) (limits lc st) Locations None"
    if "queue_uri path" "ends_ppd path"
    using cupsdFindBest_scan[OF wf len, of lc st] drop_ppd_queue[OF that] queue_uri_cut4[OF that]
    by simp
  have b: "cupsdFindBest lc max_uri Locations path st =
         cupsdFindBest lc max_uri Locations (cut4 path) st"
    if "queue_uri path" "ends_ppd path" "\<not> ends_ppd (cut4 path)"
  proof -
    have l: "length (cut4 path) < max_uri" using len by (simp add: cut4_def)
    have d: "drop_ppd path = drop_ppd (cut4 path)"
      using drop_ppd_queue[OF that(1,2)] drop_ppd_no_suffix[OF that(3)] by simp
    show ?thesis by (rule cupsdFindBest_cong[OF len l d])
  qed
  have c: "cupsdFindBest lc max_uri Locations path st =
        longest_prefix_scan False path (limits lc st) Locations None"
    if "\<not> queue_uri path"
    using cupsdFindBest_scan[OF wf len, of lc st] drop_ppd_not_queue[OF that] that
    by simp
  show ?thesis using a b c by blast
qed

text \<open>An instance: with \<open>/printers/foo\<close> the only location, a GET of \<open>/printers/FOO.ppd\<close>
  selects it, as a GET of \<open>/printers/FOO\<close> does; with \<open>/admin/foo\<close> the only location, a
  GET of \<open>/admin/foo.ppd\<close> selects it and a GET of \<open>/admin/FOO.ppd\<close> selects nothing.\<close>

theorem cupsdFindBest_ppd_suffix_witness:
  "list_all loc_wf [ex_loc ''/printers/foo'' 127] \<and>
   length ''/printers/FOO.ppd'' < (1024 :: nat) \<and>
   queue_uri ''/printers/FOO.ppd'' \<and> ends_ppd ''/printers/FOO.ppd'' \<and>
   \<not> ends_ppd (cut4 ''/printers/FOO.ppd'') \<and>
   cupsdFindBest ex_limits 1024 [ex_loc ''/printers/foo'' 127] ''/printers/FOO.ppd'' HTTP_GET
     = Some (ex_loc ''/printers/foo'' 127) \<and>
   cupsdFindBest ex_limits 1024 [ex_loc ''/printers/foo'' 127] ''/printers/FOO.ppd'' HTTP_GET
     = cupsdFindBest ex_limits 1024 [ex_loc ''/printers/foo'' 127] ''/printers/FOO'' HTTP_GET \<and>
   \<not> queue_uri ''/admin/foo.ppd'' \<and>
   cupsdFindBest ex_limits 1024 [ex_loc ''/admin/foo'' 127] ''/admin/foo.ppd'' HTTP_GET
     = Some (ex_loc ''/admin/foo'' 127) \<and>
   cupsdFindBest ex_limits 1024 [ex_loc ''/admin/foo'' 127] ''/admin/FOO.ppd'' HTTP_GET = None"
proof -
  have wf: "list_all loc_wf [ex_loc ''/printers/foo'' 127]"
    by (simp add: find_best_eval)
  have len: "length ''/printers/FOO.ppd'' < (1024 :: nat)" by simp
  have q: "queue_uri ''/printers/FOO.ppd''" and e: "ends_ppd ''/printers/FOO.ppd''"
    and c: "cut4 ''/printers/FOO.ppd'' = ''/printers/FOO''"
    and ne: "\<not> ends_ppd (cut4 ''/printers/FOO.ppd'')"
    by (simp_all add: find_best_eval ends_ppd_def cut4_def suffix_def)
  have same: "cupsdFindBest ex_limits 1024 [ex_loc ''/printers/foo'' 127] ''/printers/FOO.ppd''
                HTTP_GET =
              cupsdFindBest ex_limits 1024 [ex_loc ''/printers/foo'' 127] ''/printers/FOO''
                HTTP_GET"
  proof -
    note t = cupsdFindBest_ppd_suffix[OF wf len, of ex_limits HTTP_GET]
    from t q e ne have
      "cupsdFindBest ex_limits 1024 [ex_loc ''/printers/foo'' 127] ''/printers/FOO.ppd''
         HTTP_GET =
       cupsdFindBest ex_limits 1024 [ex_loc ''/printers/foo'' 127]
         (cut4 ''/printers/FOO.ppd'') HTTP_GET"
      by blast
    then show ?thesis by (simp only: c)
  qed
  have v: "cupsdFindBest ex_limits 1024 [ex_loc ''/printers/foo'' 127] ''/printers/FOO'' HTTP_GET
             = Some (ex_loc ''/printers/foo'' 127)"
    by (simp add: find_best_eval)
  have adm: "\<not> queue_uri ''/admin/foo.ppd'' \<and>
     cupsdFindBest ex_limits 1024 [ex_loc ''/admin/foo'' 127] ''/admin/foo.ppd'' HTTP_GET
       = Some (ex_loc ''/admin/foo'' 127) \<and>
     cupsdFindBest ex_limits 1024 [ex_loc ''/admin/foo'' 127] ''/admin/FOO.ppd'' HTTP_GET = None"
    by (simp add: find_best_eval)
  show ?thesis using wf len q e ne same v adm by simp
qed

text \<open>Where the claim fails as it is worded: a queue whose name itself ends in \<open>.ppd\<close>.
  The path \<open>/printers/a.ppd.ppd\<close> begins with \<open>/printers/\<close> and ends in \<open>.ppd\<close>; on it
  cupsdFindBest selects the location \<open>/printers/a.ppd\<close>, while on the path with the
  four bytes removed, \<open>/printers/a.ppd\<close>, it cuts once more and selects nothing.\<close>

theorem cupsdFindBest_ppd_suffix_counterexample:
  "queue_uri ''/printers/a.ppd.ppd'' \<and> ends_ppd ''/printers/a.ppd.ppd'' \<and>
   cut4 ''/printers/a.ppd.ppd'' = ''/printers/a.ppd'' \<and>
   list_all loc_wf [ex_loc ''/printers/a.ppd'' 127] \<and>
   cupsdFindBest ex_limits 1024 [ex_loc ''/printers/a.ppd'' 127] ''/printers/a.ppd.ppd'' HTTP_GET
     = Some (ex_loc ''/printers/a.ppd'' 127) \<and>
   cupsdFindBest ex_limits 1024 [ex_loc ''/printers/a.ppd'' 127] ''/printers/a.ppd'' HTTP_GET
     = None"
  by (simp add: find_best_eval ends_ppd_def cut4_def suffix_def)

section \<open>Properties of cupsdCheckGroup and cupsdGetMD5Passwd\<close>

lemma fst_after [simp]: "fst (after l r) = fst r"
  by (simp add: after_def)

lemma snd_after [simp]: "snd (after l r) = l @ snd r"
  by (simp add: after_def)

lemma md5_lines_None_iff:
  "(md5_lines u (Some g) ls = None) = (\<not> list_ex (entry_of u g) ls)"
proof (induction ls)
  case Nil
  show ?case by simp
next
  case (Cons line ls)
  show ?case
  proof (cases "sscanf_md5 line")
    case None
    with Cons show ?thesis by (simp add: entry_of_def)
  next
    case (Some t)
    obtain tu tg pass where t: "t = (tu, tg, pass)" by (cases t)
    with Some Cons show ?thesis by (auto simp: entry_of_def)
  qed
qed

lemma cupsdGetMD5Passwd_entry:
  "(fst (cupsdGetMD5Passwd env u (Some g)) = None) = (\<not> md5_entry env u g)"
  by (cases "passwd_md5 env")
     (simp_all add: cupsdGetMD5Passwd_def md5_entry_def md5_lines_None_iff)

lemma cupsdCheckGroup_iff:
  "fst (cupsdCheckGroup env (Some u) pw (Some g)) =
   (os_group_member env u g \<or> primary_gid_match env pw g \<or> md5_entry env u g)"
proof -
  obtain r l where c: "cupsdGetMD5Passwd env u (Some g) = (r, l)"
    by (cases "cupsdGetMD5Passwd env u (Some g)")
  have m: "md5_entry env u g = (r \<noteq> None)"
    using cupsdGetMD5Passwd_entry[of env u g] c by simp
  have mem: "os_group_member env u g =
     (case getgrnam env g of None \<Rightarrow> False
      | Some gr \<Rightarrow> list_ex (\<lambda>m. strcasecmp_eq u m) (gr_mem gr))"
    by (cases "getgrnam env g") (simp_all add: os_group_member_def strcasecmp_eq_def[abs_def])
  have gid: "primary_gid_match env pw g =
     (case pw of None \<Rightarrow> False | Some p \<Rightarrow>
      case getgrnam env g of None \<Rightarrow> False | Some gr \<Rightarrow> gr_gid gr = pw_gid p)"
    by (auto simp: primary_gid_match_def split: option.splits)
  show ?thesis
    unfolding m mem gid
    by (cases r) (simp_all add: cupsdCheckGroup_def Let_def c)
qed

lemma scan_not_colon_field:
  assumes "field_ok f"
  shows "scan_not_colon (f @ CHR '':'' # r) = Some (f, CHR '':'' # r)"
proof -
  have l: "length f \<le> 32" and nc: "\<forall>c \<in> set f. c \<noteq> CHR '':''" and ne: "f \<noteq> []"
    using assms by (auto simp: field_ok_def)
  have "take 32 (f @ CHR '':'' # r) = f @ take (32 - length f) (CHR '':'' # r)"
    using l by simp
  moreover have "takeWhile (\<lambda>c. c \<noteq> CHR '':'') (f @ take (32 - length f) (CHR '':'' # r)) = f"
    using nc by (cases "32 - length f") (simp_all add: takeWhile_append2)
  ultimately show ?thesis using ne by (simp add: scan_not_colon_def Let_def)
qed

lemma scan_word_hash:
  assumes "hash_ok h"
  shows "scan_word h = Some h"
proof -
  have l: "length h \<le> 32" and ns: "\<forall>c \<in> set h. \<not> isspace c" and ne: "h \<noteq> []"
    using assms by (auto simp: hash_ok_def list_ex_iff)
  have "dropWhile isspace h = h" using ns ne by (cases h) simp_all
  moreover have "take 32 h = h" using l by simp
  moreover have "takeWhile (\<lambda>c. \<not> isspace c) h = h" using ns by (simp add: takeWhile_eq_all_conv)
  ultimately show ?thesis using ne by (simp add: scan_word_def Let_def del: takeWhile_eq_all_conv)
qed

lemma sscanf_md5_line:
  assumes "field_ok u" "field_ok g" "hash_ok h"
  shows "sscanf_md5 (md5_line u g h) = Some (u, g, h)"
  using scan_not_colon_field[OF assms(1), of "g @ CHR '':'' # h"]
    scan_not_colon_field[OF assms(2), of h] scan_word_hash[OF assms(3)]
  by (simp add: sscanf_md5_def md5_line_def scan_colon_def)

lemma md5_entry_line:
  assumes "passwd_md5 env = Some ls" "md5_line u g h \<in> set ls"
    "field_ok u" "field_ok g" "hash_ok h"
  shows "md5_entry env u g"
proof -
  have "entry_of u g (md5_line u g h)"
    using sscanf_md5_line[OF assms(3-5)] by (simp add: entry_of_def)
  then show ?thesis using assms(1,2) by (auto simp: md5_entry_def list_ex_iff)
qed

lemmas auth_eval =
  cupsdIsAuthorized_def host_auth_def auth_address_def check_password_def check_names_def
  local_certificate_def effective_type_def auth_basic_def auth_digest_def auth_basicdigest_def
  md5_lookup_def cupsdCheckGroup_def cupsdGetMD5Passwd_def sscanf_md5_def scan_not_colon_def
  scan_colon_def scan_word_def isspace_def ip_masked_eq_def netif_match_def after_def
  strcasecmp_eq_def strncmp_eq_def first_char_is_def tolower_def isupper_def strlcpy_def
  zero_location_def ex_loc_def ex_limits_def ex_env_def ex_con_def Let_def

text \<open>
  Claim C6.  For a user name \<open>u\<close> and a group name \<open>g\<close>, cupsdCheckGroup returns true
  exactly when one of three things holds: the system group \<open>g\<close> exists and lists \<open>u\<close>
  (up to the case of letters); a user record is supplied, the system group \<open>g\<close> exists
  and its id is the primary group id of that record; or passwd.md5 holds an entry for
  \<open>u\<close> and \<open>g\<close>.  The last alone suffices, whatever the system says of the group: a line
  \<open>u:g:h\<close> of the file, with fields of the lengths the format allows, is such an entry.
\<close>

theorem cupsdCheckGroup_three_sources:
  "fst (cupsdCheckGroup env (Some u) pw (Some g)) =
     (os_group_member env u g \<or> primary_gid_match env pw g \<or> md5_entry env u g) \<and>
   (\<forall>file_lines h.
      passwd_md5 env = Some file_lines \<and> md5_line u g h \<in> set file_lines \<and>
      field_ok u \<and> field_ok g \<and> hash_ok h \<longrightarrow>
      md5_entry env u g \<and> fst (cupsdCheckGroup env (Some u) pw (Some g)))"
  using cupsdCheckGroup_iff[of env u pw g] md5_entry_line[of env _ u g] by blast

text \<open>An instance: carol is no system user and the system has no group staff, but
  passwd.md5 has the line \<open>carol:staff:...\<close>; she is a member of staff.\<close>

theorem cupsdCheckGroup_three_sources_witness:
  "getgrnam ex_env ''staff'' = None \<and> getpwnam ex_env ''carol'' = None \<and>
   passwd_md5 ex_env = Some [md5_line ''carol'' ''staff'' ''0123456789abcdef0123456789abcdef''] \<and>
   field_ok ''carol'' \<and> field_ok ''staff'' \<and> hash_ok ''0123456789abcdef0123456789abcdef'' \<and>
   \<not> os_group_member ex_env ''carol'' ''staff'' \<and>
   \<not> primary_gid_match ex_env (getpwnam ex_env ''carol'') ''staff'' \<and>
   md5_entry ex_env ''carol'' ''staff'' \<and>
   fst (cupsdCheckGroup ex_env (Some ''carol'') (getpwnam ex_env ''carol'') (Some ''staff''))"
proof -
  have f: "passwd_md5 ex_env =
           Some [md5_line ''carol'' ''staff'' ''0123456789abcdef0123456789abcdef'']"
    by (simp add: ex_env_def md5_line_def)
  have ok: "field_ok ''carol''" "field_ok ''staff''"
    "hash_ok ''0123456789abcdef0123456789abcdef''"
    by (simp_all add: field_ok_def hash_ok_def isspace_def)
  have os: "getgrnam ex_env ''staff'' = None" "getpwnam ex_env ''carol'' = None"
    "\<not> os_group_member ex_env ''carol'' ''staff''"
    "\<not> primary_gid_match ex_env (getpwnam ex_env ''carol'') ''staff''"
    by (simp_all add: ex_env_def os_group_member_def primary_gid_match_def)
  note t = cupsdCheckGroup_three_sources[of ex_env "''carol''" "getpwnam ex_env ''carol''"
      "''staff''"]
  have "md5_entry ex_env ''carol'' ''staff'' \<and>
        fst (cupsdCheckGroup ex_env (Some ''carol'') (getpwnam ex_env ''carol'') (Some ''staff''))"
    using t f ok by auto
  then show ?thesis using f ok os by blast
qed

section \<open>Properties of cupsdIsAuthorized\<close>

lemma check_mask_calls: "list_all is_netif_call (snd (check_mask env ip name n m))"
  by (cases m) (auto simp: is_netif_call_def split: option.splits)

lemma cupsdCheckAuth_calls: "list_all is_netif_call (snd (cupsdCheckAuth env ip name n ms))"
proof (induction ms)
  case Nil
  show ?case by simp
next
  case (Cons m ms)
  obtain hit l where c: "check_mask env ip name n m = (hit, l)" by (cases "check_mask env ip name n m")
  have "list_all is_netif_call l" using check_mask_calls[of env ip name n m] c by simp
  with Cons c show ?case by (cases hit) simp_all
qed

lemma host_auth_calls: "list_all is_netif_call (snd (host_auth env con loc))"
  by (cases "order_type loc") (simp_all add: host_auth_def Let_def cupsdCheckAuth_calls)

lemma cupsdIsAuthorized_late:
  assumes "con_best con = Some loc" "passes_early_steps env con loc"
  shows "cupsdIsAuthorized env con owner =
         after (snd (host_auth env con loc))
           (case check_password env con loc of
              (Inl status, l2) \<Rightarrow> (status, l2)
            | (Inr pw, l2) \<Rightarrow> after l2 (check_names env con owner loc pw))"
  using assms
  by (cases "host_auth env con loc") (auto simp: cupsdIsAuthorized_def passes_early_steps_def)

lemma cupsdIsAuthorized_forbidden:
  assumes "con_best con = Some loc" "satisfy loc = AUTH_SATISFY_ALL"
    "fst (host_auth env con loc) = AUTH_DENY"
  shows "cupsdIsAuthorized env con owner = (HTTP_FORBIDDEN, snd (host_auth env con loc))"
  using assms by (cases "host_auth env con loc") (simp add: cupsdIsAuthorized_def)


lemma owner_not_system: "\<not> strcasecmp_eq ''@OWNER'' ''@SYSTEM''"
  by (simp add: strcasecmp_eq_def tolower_def isupper_def)

lemma check_user_names_owner_head:
  assumes "owner = None \<or> (\<exists>ow. owner = Some ow \<and> \<not> strcasecmp_eq user ow)"
  shows "check_user_names env user owner pw (''@OWNER'' # ns) =
     (case cupsdCheckGroup env (Some user) pw (Some ''OWNER'') of
        (True, l) \<Rightarrow> (True, l)
      | (False, l) \<Rightarrow> after l (check_user_names env user owner pw ns))"
proof -
  have o: "\<not> (case owner of None \<Rightarrow> False | Some ow \<Rightarrow> strcasecmp_eq user ow)"
    using assms by (auto split: option.splits)
  show ?thesis
    using o owner_not_system by (simp add: first_char_is_def)
qed

lemma check_user_names_step:
  "fst (check_user_names env user owner pw (n # ns)) \<or>
   fst (check_user_names env user owner pw (n # ns)) = fst (check_user_names env user owner pw ns)"
proof -
  obtain a la where a: "check_system_groups env user pw (SystemGroups env) = (a, la)"
    by (cases "check_system_groups env user pw (SystemGroups env)")
  obtain b lb where b: "cupsdCheckGroup env (Some user) pw (Some (tl n)) = (b, lb)"
    by (cases "cupsdCheckGroup env (Some user) pw (Some (tl n))")
  show ?thesis by (cases a; cases b) (simp_all add: a b)
qed

lemma check_user_names_owner_group:
  assumes "''@OWNER'' \<in> set ns" "fst (cupsdCheckGroup env (Some user) pw (Some ''OWNER''))"
  shows "fst (check_user_names env user owner pw ns)"
  using assms(1)
proof (induction ns)
  case Nil
  then show ?case by simp
next
  case (Cons n ns)
  show ?case
  proof (cases "n = ''@OWNER''")
    case True
    obtain b lb where b: "cupsdCheckGroup env (Some user) pw (Some ''OWNER'') = (b, lb)"
      by (cases "cupsdCheckGroup env (Some user) pw (Some ''OWNER'')")
    with assms(2) have "b" by simp
    then show ?thesis
      using owner_not_system by (simp add: True b first_char_is_def)
  next
    case False
    then have "''@OWNER'' \<in> set ns" using Cons.prems by simp
    then have "fst (check_user_names env user owner pw ns)" by (rule Cons.IH)
    then show ?thesis using check_user_names_step[of env user owner pw n ns] by blast
  qed
qed

lemma cupsdIsAuthorized_names:
  assumes "con_best con = Some loc" "passes_early_steps env con loc"
    "fst (check_password env con loc) = Inr pw"
  shows "cupsdIsAuthorized env con owner =
         after (snd (host_auth env con loc) @ snd (check_password env con loc))
           (check_names env con owner loc pw)"
proof -
  obtain l2 where c: "check_password env con loc = (Inr pw, l2)"
    using assms(3) by (cases "check_password env con loc") simp
  show ?thesis
    unfolding cupsdIsAuthorized_late[OF assms(1,2)] by (simp add: c after_def)
qed

text \<open>
  Claim C8.  In the scan of the names of a location of level User, a token \<open>@OWNER\<close>
  that the owner comparison does not accept (no owner is supplied, or the owner is not
  the user) is treated next as the name of a group: the scan asks cupsdCheckGroup for
  the group \<open>OWNER\<close>, accepts if it answers yes and goes on to the next name otherwise.
  So for a request that reaches the scan with its password found good, a location of
  level User that names \<open>@OWNER\<close>, and a user who is in a system group or passwd.md5
  group called OWNER, the answer is OK although no owner is supplied.
\<close>

theorem owner_token_group_fallthrough:
  "((owner = None \<or> (\<exists>ow. owner = Some ow \<and> \<not> strcasecmp_eq user ow)) \<longrightarrow>
      check_user_names env user owner pw (''@OWNER'' # ns) =
        (case cupsdCheckGroup env (Some user) pw (Some ''OWNER'') of
           (True, l) \<Rightarrow> (True, l)
         | (False, l) \<Rightarrow> after l (check_user_names env user owner pw ns))) \<and>
   (con_best con = Some loc \<and> passes_early_steps env con loc \<and>
    fst (check_password env con loc) = Inr pw' \<and>
    level loc = AUTH_USER \<and> ''@OWNER'' \<in> set (names loc) \<and>
    (os_group_member env (con_username con) ''OWNER'' \<or>
     md5_entry env (con_username con) ''OWNER'') \<longrightarrow>
      fst (cupsdIsAuthorized env con None) = HTTP_OK)"
proof -
  have b: "fst (cupsdIsAuthorized env con None) = HTTP_OK"
    if best: "con_best con = Some loc" and early: "passes_early_steps env con loc"
      and pass: "fst (check_password env con loc) = Inr pw'"
      and lev: "level loc = AUTH_USER" and tok: "''@OWNER'' \<in> set (names loc)"
      and grp: "os_group_member env (con_username con) ''OWNER'' \<or>
                md5_entry env (con_username con) ''OWNER''"
  proof -
    have "fst (cupsdCheckGroup env (Some (con_username con)) pw' (Some ''OWNER''))"
      using grp by (auto simp: cupsdCheckGroup_iff)
    then have u: "fst (check_user_names env (con_username con) None pw' (names loc))"
      by (rule check_user_names_owner_group[OF tok])
    obtain r l where c: "check_user_names env (con_username con) None pw' (names loc) = (r, l)"
      by (cases "check_user_names env (con_username con) None pw' (names loc)")
    have "fst (check_names env con None loc pw') = HTTP_OK"
      using u lev tok c by (auto simp: check_names_def)
    then show ?thesis
      unfolding cupsdIsAuthorized_names[OF best early pass] by simp
  qed
  show ?thesis using check_user_names_owner_head[of owner user env pw ns] b by blast
qed

text \<open>An instance: alice, with her password, asks for a job location that requires
  \<open>@OWNER\<close>; no owner is supplied; the system has a group OWNER that lists alice.\<close>

theorem owner_token_group_fallthrough_witness:
  "con_best (ex_con\<lparr>con_best := Some ex_owner_loc\<rparr>) = Some ex_owner_loc \<and>
   passes_early_steps ex_env (ex_con\<lparr>con_best := Some ex_owner_loc\<rparr>) ex_owner_loc \<and>
   fst (check_password ex_env (ex_con\<lparr>con_best := Some ex_owner_loc\<rparr>) ex_owner_loc)
     = Inr (getpwnam ex_env ''alice'') \<and>
   level ex_owner_loc = AUTH_USER \<and> ''@OWNER'' \<in> set (names ex_owner_loc) \<and>
   os_group_member ex_env ''alice'' ''OWNER'' \<and>
   fst (cupsdIsAuthorized ex_env (ex_con\<lparr>con_best := Some ex_owner_loc\<rparr>) None) = HTTP_OK"
proof -
  let ?con = "ex_con\<lparr>con_best := Some ex_owner_loc\<rparr>"
  have b: "con_best ?con = Some ex_owner_loc" by simp
  have e: "passes_early_steps ex_env ?con ex_owner_loc"
    by (simp add: passes_early_steps_def ex_owner_loc_def auth_eval)
  have p: "fst (check_password ex_env ?con ex_owner_loc) = Inr (getpwnam ex_env ''alice'')"
    by (simp add: ex_owner_loc_def auth_eval)
  have l: "level ex_owner_loc = AUTH_USER" "''@OWNER'' \<in> set (names ex_owner_loc)"
    by (simp_all add: ex_owner_loc_def auth_eval)
  have g: "os_group_member ex_env ''alice'' ''OWNER''"
    by (simp add: os_group_member_def ex_env_def)
  have u: "con_username ?con = ''alice''" by (simp add: ex_con_def)
  have "fst (cupsdIsAuthorized ex_env ?con None) = HTTP_OK"
    using owner_token_group_fallthrough[of None "''alice''" ex_env None "[]" ?con ex_owner_loc
        "getpwnam ex_env ''alice''"] b e p l g u
    by simp
  then show ?thesis using b e p l g by blast
qed

subsection \<open>Host filter\<close>

lemma host_auth_eval_ip:
  assumes nl: "\<not> strcasecmp_eq (con_http_hostname con) ''localhost''"
    and addr: "con_http_hostaddr con = ADDR_INET a" "ntohl env a = 0x0A010203"
    and al: "allow loc = [AUTH_IP (0, 0, 0, 0x0A000000) (m0, m1, m2, 0xFF000000)]"
    and de: "deny loc = [AUTH_IP (0, 0, 0, 0x0A010000) (n0, n1, n2, 0xFFFF0000)]"
  shows "fst (host_auth env con loc) = order_type loc"
  using assms
  by (cases "order_type loc")
     (simp_all add: host_auth_def auth_address_def ip_masked_eq_def after_def Let_def)

text \<open>
  Claim C2.  Let the allow list of a location be the network 10.0.0.0/8 and its deny
  list the network 10.1.0.0/16, each an IPv4 mask in the low word with the three upper
  address words zero (whatever the three upper netmask words), and let the peer be the
  IPv4 address 10.1.2.3 under a host name other than localhost.  Both lists match the
  peer.  Under the order AUTH_ALLOW (Order Deny,Allow) the host filter starts with
  allow, the deny list turns it to deny, the allow list turns it back: allow.  Under
  the order AUTH_DENY (Order Allow,Deny) it starts with deny, the allow list turns it
  to allow, the deny list turns it back: deny.
\<close>

theorem host_auth_order_precedence:
  "\<not> strcasecmp_eq (con_http_hostname con) ''localhost'' \<and>
   con_http_hostaddr con = ADDR_INET a \<and> ntohl env a = 0x0A010203 \<and>
   allow loc = [AUTH_IP (0, 0, 0, 0x0A000000) (m0, m1, m2, 0xFF000000)] \<and>
   deny loc = [AUTH_IP (0, 0, 0, 0x0A010000) (n0, n1, n2, 0xFFFF0000)] \<longrightarrow>
   fst (cupsdCheckAuth env (auth_address env con) (con_http_hostname con)
          (length (con_http_hostname con)) (allow loc)) \<and>
   fst (cupsdCheckAuth env (auth_address env con) (con_http_hostname con)
          (length (con_http_hostname con)) (deny loc)) \<and>
   (order_type loc = AUTH_ALLOW \<longrightarrow> fst (host_auth env con loc) = AUTH_ALLOW) \<and>
   (order_type loc = AUTH_DENY \<longrightarrow> fst (host_auth env con loc) = AUTH_DENY)"
  using host_auth_eval_ip[of con a env loc m0 m1 m2 n0 n1 n2]
  by (simp add: auth_address_def ip_masked_eq_def)

text \<open>An instance, for each of the two orders.\<close>

theorem host_auth_order_precedence_witness:
  "\<not> strcasecmp_eq (con_http_hostname ex_con) ''localhost'' \<and>
   con_http_hostaddr ex_con = ADDR_INET 0x0A010203 \<and> ntohl ex_env 0x0A010203 = 0x0A010203 \<and>
   allow ex_net_loc = [AUTH_IP (0, 0, 0, 0x0A000000) (0, 0, 0, 0xFF000000)] \<and>
   deny ex_net_loc = [AUTH_IP (0, 0, 0, 0x0A010000) (0, 0, 0, 0xFFFF0000)] \<and>
   fst (host_auth ex_env ex_con (ex_net_loc\<lparr>order_type := AUTH_ALLOW\<rparr>)) = AUTH_ALLOW \<and>
   fst (host_auth ex_env ex_con (ex_net_loc\<lparr>order_type := AUTH_DENY\<rparr>)) = AUTH_DENY"
proof -
  have h: "\<not> strcasecmp_eq (con_http_hostname ex_con) ''localhost''"
    "con_http_hostaddr ex_con = ADDR_INET 0x0A010203" "ntohl ex_env 0x0A010203 = 0x0A010203"
    "allow ex_net_loc = [AUTH_IP (0, 0, 0, 0x0A000000) (0, 0, 0, 0xFF000000)]"
    "deny ex_net_loc = [AUTH_IP (0, 0, 0, 0x0A010000) (0, 0, 0, 0xFFFF0000)]"
    by (simp_all add: ex_net_loc_def auth_eval)
  have a: "fst (host_auth ex_env ex_con (ex_net_loc\<lparr>order_type := AUTH_ALLOW\<rparr>)) = AUTH_ALLOW"
    using host_auth_order_precedence[of ex_con "0x0A010203" ex_env
        "ex_net_loc\<lparr>order_type := AUTH_ALLOW\<rparr>" 0 0 0 0 0 0] h
    by simp
  have d: "fst (host_auth ex_env ex_con (ex_net_loc\<lparr>order_type := AUTH_DENY\<rparr>)) = AUTH_DENY"
    using host_auth_order_precedence[of ex_con "0x0A010203" ex_env
        "ex_net_loc\<lparr>order_type := AUTH_DENY\<rparr>" 0 0 0 0 0 0] h
    by simp
  show ?thesis using h a d by blast
qed

subsection \<open>Satisfy\<close>

lemma cupsdIsAuthorized_upgrade:
  assumes "con_best con = Some loc" "satisfy loc = AUTH_SATISFY_ANY"
    "\<not> encryption_met env con loc"
  shows "cupsdIsAuthorized env con owner = (HTTP_UPGRADE_REQUIRED, snd (host_auth env con loc))"
  using assms
  by (cases "host_auth env con loc") (simp add: cupsdIsAuthorized_def encryption_met_def)

lemma host_auth_credentials:
  "host_auth env (con\<lparr>con_username := u, con_password := p, con_http_authorization := h\<rparr>) loc
     = host_auth env con loc"
  by (cases "order_type loc") (simp_all add: host_auth_def auth_address_def Let_def)

text \<open>
  Claim C1, as the code has it.  For a request governed by a location with Satisfy All
  whose host filter says deny, the status is FORBIDDEN; the calls made are those of the
  host filter, all of them to the interface registry and none to the account databases,
  PAM or passwd.md5; and the status is FORBIDDEN whatever user name, password and
  Authorization header the request carries.  For a request governed by a location with
  Satisfy Any whose host filter says deny, whose connection meets the encryption
  requirement of the location (the test of line 1177 does not fire), and which carries
  a user name and a password that the password check finds good and that the user and
  group check accepts, the status is OK.  For a request governed by a location with
  Satisfy Any whose host filter says deny and whose connection does not meet the
  encryption requirement (the test of line 1177 fires), the status is UPGRADE_REQUIRED;
  the calls made are those of the host filter, all of them to the interface registry,
  so no credential is looked at; and the status is UPGRADE_REQUIRED whatever user name,
  password and Authorization header the request carries.
\<close>

theorem satisfy_semantics:
  "(con_best con = Some loc \<and> satisfy loc = AUTH_SATISFY_ALL \<and>
    fst (host_auth env con loc) = AUTH_DENY \<longrightarrow>
      fst (cupsdIsAuthorized env con owner) = HTTP_FORBIDDEN \<and>
      snd (cupsdIsAuthorized env con owner) = snd (host_auth env con loc) \<and>
      list_all is_netif_call (snd (cupsdIsAuthorized env con owner)) \<and>
      (\<forall>u p h. cupsdIsAuthorized env
                 (con\<lparr>con_username := u, con_password := p, con_http_authorization := h\<rparr>)
                 owner
               = (HTTP_FORBIDDEN, snd (host_auth env con loc)))) \<and>
   (con_best con = Some loc \<and> satisfy loc = AUTH_SATISFY_ANY \<and>
    fst (host_auth env con loc) = AUTH_DENY \<and> encryption_met env con loc \<and>
    credentials_valid env con loc \<and> principal_ok env con owner loc \<longrightarrow>
      fst (cupsdIsAuthorized env con owner) = HTTP_OK) \<and>
   (con_best con = Some loc \<and> satisfy loc = AUTH_SATISFY_ANY \<and>
    fst (host_auth env con loc) = AUTH_DENY \<and> \<not> encryption_met env con loc \<longrightarrow>
      fst (cupsdIsAuthorized env con owner) = HTTP_UPGRADE_REQUIRED \<and>
      snd (cupsdIsAuthorized env con owner) = snd (host_auth env con loc) \<and>
      list_all is_netif_call (snd (cupsdIsAuthorized env con owner)) \<and>
      (\<forall>u p h. cupsdIsAuthorized env
                 (con\<lparr>con_username := u, con_password := p, con_http_authorization := h\<rparr>)
                 owner
               = (HTTP_UPGRADE_REQUIRED, snd (host_auth env con loc))))"
proof -
  have a: "fst (cupsdIsAuthorized env con owner) = HTTP_FORBIDDEN \<and>
      snd (cupsdIsAuthorized env con owner) = snd (host_auth env con loc) \<and>
      list_all is_netif_call (snd (cupsdIsAuthorized env con owner)) \<and>
      (\<forall>u p h. cupsdIsAuthorized env
                 (con\<lparr>con_username := u, con_password := p, con_http_authorization := h\<rparr>)
                 owner
               = (HTTP_FORBIDDEN, snd (host_auth env con loc)))"
    if best: "con_best con = Some loc" and sat: "satisfy loc = AUTH_SATISFY_ALL"
      and deny: "fst (host_auth env con loc) = AUTH_DENY"
  proof -
    have "cupsdIsAuthorized env
            (con\<lparr>con_username := u, con_password := p, con_http_authorization := h\<rparr>) owner
          = (HTTP_FORBIDDEN, snd (host_auth env con loc))" for u p h
      using cupsdIsAuthorized_forbidden[of
          "con\<lparr>con_username := u, con_password := p, con_http_authorization := h\<rparr>"
          loc env owner] best sat deny
      by (simp add: host_auth_credentials)
    then show ?thesis
      using cupsdIsAuthorized_forbidden[OF best sat deny] host_auth_calls[of env con loc]
      by simp
  qed
  have b: "fst (cupsdIsAuthorized env con owner) = HTTP_OK"
    if best: "con_best con = Some loc" and sat: "satisfy loc = AUTH_SATISFY_ANY"
      and deny: "fst (host_auth env con loc) = AUTH_DENY" and enc: "encryption_met env con loc"
      and cred: "credentials_valid env con loc" and prin: "principal_ok env con owner loc"
  proof -
    obtain au l where h: "host_auth env con loc = (au, l)" by (cases "host_auth env con loc")
    from cred obtain pw where pass: "fst (check_password env con loc) = Inr pw"
      and user: "con_username con \<noteq> []"
      by (auto simp: credentials_valid_def split: sum.splits)
    then obtain l2 where c: "check_password env con loc = (Inr pw, l2)"
      by (cases "check_password env con loc") simp
    have ok: "fst (check_names env con owner loc pw) = HTTP_OK"
      using prin pass by (simp add: principal_ok_def)
    show ?thesis
      using best sat enc user ok
      by (simp add: cupsdIsAuthorized_def h c encryption_met_def)
  qed
  have c: "fst (cupsdIsAuthorized env con owner) = HTTP_UPGRADE_REQUIRED \<and>
      snd (cupsdIsAuthorized env con owner) = snd (host_auth env con loc) \<and>
      list_all is_netif_call (snd (cupsdIsAuthorized env con owner)) \<and>
      (\<forall>u p h. cupsdIsAuthorized env
                 (con\<lparr>con_username := u, con_password := p, con_http_authorization := h\<rparr>)
                 owner
               = (HTTP_UPGRADE_REQUIRED, snd (host_auth env con loc)))"
    if best: "con_best con = Some loc" and sat: "satisfy loc = AUTH_SATISFY_ANY"
      and deny: "fst (host_auth env con loc) = AUTH_DENY"
      and enc: "\<not> encryption_met env con loc"
  proof -
    have u: "cupsdIsAuthorized env
            (con\<lparr>con_username := u, con_password := p, con_http_authorization := h\<rparr>) owner
          = (HTTP_UPGRADE_REQUIRED, snd (host_auth env con loc))" for u p h
      using cupsdIsAuthorized_upgrade[of
          "con\<lparr>con_username := u, con_password := p, con_http_authorization := h\<rparr>"
          loc env owner] best sat enc
      by (simp add: host_auth_credentials encryption_met_def)
    have "cupsdIsAuthorized env con owner
          = (HTTP_UPGRADE_REQUIRED, snd (host_auth env con loc))"
      using cupsdIsAuthorized_upgrade[of con loc env owner] best sat enc
      by simp
    then show ?thesis
      using u host_auth_calls[of env con loc] by simp
  qed
  show ?thesis using a b c by blast
qed

text \<open>An instance of each part: alice with her password, from a host that the location
  denies.  Under Satisfy All the answer is FORBIDDEN and no call is made; under Satisfy
  Any, over TLS, the answer is OK; under Satisfy Any without TLS the answer is
  UPGRADE_REQUIRED and no call is made.\<close>

theorem satisfy_semantics_witness:
  "con_best (ex_con\<lparr>con_best := Some (ex_any_loc\<lparr>satisfy := AUTH_SATISFY_ALL\<rparr>)\<rparr>)
     = Some (ex_any_loc\<lparr>satisfy := AUTH_SATISFY_ALL\<rparr>) \<and>
   satisfy (ex_any_loc\<lparr>satisfy := AUTH_SATISFY_ALL\<rparr>) = AUTH_SATISFY_ALL \<and>
   fst (host_auth ex_env (ex_con\<lparr>con_best := Some (ex_any_loc\<lparr>satisfy := AUTH_SATISFY_ALL\<rparr>)\<rparr>)
          (ex_any_loc\<lparr>satisfy := AUTH_SATISFY_ALL\<rparr>)) = AUTH_DENY \<and>
   cupsdIsAuthorized ex_env
     (ex_con\<lparr>con_best := Some (ex_any_loc\<lparr>satisfy := AUTH_SATISFY_ALL\<rparr>)\<rparr>) None
     = (HTTP_FORBIDDEN, []) \<and>
   con_best (ex_con\<lparr>con_best := Some ex_any_loc, con_http_tls := True\<rparr>) = Some ex_any_loc \<and>
   satisfy ex_any_loc = AUTH_SATISFY_ANY \<and>
   fst (host_auth ex_env (ex_con\<lparr>con_best := Some ex_any_loc, con_http_tls := True\<rparr>)
          ex_any_loc) = AUTH_DENY \<and>
   encryption_met ex_env (ex_con\<lparr>con_best := Some ex_any_loc, con_http_tls := True\<rparr>)
     ex_any_loc \<and>
   credentials_valid ex_env (ex_con\<lparr>con_best := Some ex_any_loc, con_http_tls := True\<rparr>)
     ex_any_loc \<and>
   principal_ok ex_env (ex_con\<lparr>con_best := Some ex_any_loc, con_http_tls := True\<rparr>) None
     ex_any_loc \<and>
   fst (cupsdIsAuthorized ex_env (ex_con\<lparr>con_best := Some ex_any_loc, con_http_tls := True\<rparr>)
          None) = HTTP_OK \<and>
   con_best (ex_con\<lparr>con_best := Some ex_any_loc, con_password := ''wrong''\<rparr>)
     = Some ex_any_loc \<and>
   fst (host_auth ex_env (ex_con\<lparr>con_best := Some ex_any_loc, con_password := ''wrong''\<rparr>)
          ex_any_loc) = AUTH_DENY \<and>
   \<not> encryption_met ex_env (ex_con\<lparr>con_best := Some ex_any_loc, con_password := ''wrong''\<rparr>)
       ex_any_loc \<and>
   cupsdIsAuthorized ex_env (ex_con\<lparr>con_best := Some ex_any_loc, con_password := ''wrong''\<rparr>)
     None = (HTTP_UPGRADE_REQUIRED, [])"
proof -
  let ?all = "ex_any_loc\<lparr>satisfy := AUTH_SATISFY_ALL\<rparr>"
  let ?c1 = "ex_con\<lparr>con_best := Some ?all\<rparr>"
  let ?c2 = "ex_con\<lparr>con_best := Some ex_any_loc, con_http_tls := True\<rparr>"
  have h1: "con_best ?c1 = Some ?all" "satisfy ?all = AUTH_SATISFY_ALL"
    "fst (host_auth ex_env ?c1 ?all) = AUTH_DENY"
    by (simp_all add: ex_any_loc_def auth_eval)
  have l1: "snd (host_auth ex_env ?c1 ?all) = []"
    by (simp add: ex_any_loc_def auth_eval)
  have r1: "cupsdIsAuthorized ex_env ?c1 None = (HTTP_FORBIDDEN, [])"
    using satisfy_semantics[of ?c1 ?all ex_env None] h1 l1
    by (simp add: prod_eq_iff)
  have h2: "con_best ?c2 = Some ex_any_loc" "satisfy ex_any_loc = AUTH_SATISFY_ANY"
    "fst (host_auth ex_env ?c2 ex_any_loc) = AUTH_DENY"
    "encryption_met ex_env ?c2 ex_any_loc"
    "credentials_valid ex_env ?c2 ex_any_loc"
    "principal_ok ex_env ?c2 None ex_any_loc"
    by (simp_all add: ex_any_loc_def encryption_met_def credentials_valid_def principal_ok_def
          auth_eval)
  have r2: "fst (cupsdIsAuthorized ex_env ?c2 None) = HTTP_OK"
    using satisfy_semantics[of ?c2 ex_any_loc ex_env None] h2 by blast
  let ?c3 = "ex_con\<lparr>con_best := Some ex_any_loc, con_password := ''wrong''\<rparr>"
  have h3: "con_best ?c3 = Some ex_any_loc"
    "fst (host_auth ex_env ?c3 ex_any_loc) = AUTH_DENY"
    "\<not> encryption_met ex_env ?c3 ex_any_loc"
    by (simp_all add: ex_any_loc_def encryption_met_def auth_eval)
  have l3: "snd (host_auth ex_env ?c3 ex_any_loc) = []"
    by (simp add: ex_any_loc_def auth_eval)
  have "fst (cupsdIsAuthorized ex_env ?c3 None) = HTTP_UPGRADE_REQUIRED \<and>
        snd (cupsdIsAuthorized ex_env ?c3 None) = snd (host_auth ex_env ?c3 ex_any_loc)"
    using satisfy_semantics[of ?c3 ex_any_loc ex_env None] h2(2) h3 by blast
  then have r3: "cupsdIsAuthorized ex_env ?c3 None = (HTTP_UPGRADE_REQUIRED, [])"
    using l3 by (simp add: prod_eq_iff)
  show ?thesis using h1 r1 h2 r2 h3 r3 by blast
qed

text \<open>Where the claim fails as it is worded: the same request under Satisfy Any, with
  the same good password and an accepting user check, but without TLS to a location
  that requires encryption.  The answer is UPGRADE_REQUIRED, not OK.\<close>

theorem satisfy_semantics_counterexample:
  "con_best (ex_con\<lparr>con_best := Some ex_any_loc\<rparr>) = Some ex_any_loc \<and>
   satisfy ex_any_loc = AUTH_SATISFY_ANY \<and>
   fst (host_auth ex_env (ex_con\<lparr>con_best := Some ex_any_loc\<rparr>) ex_any_loc) = AUTH_DENY \<and>
   credentials_valid ex_env (ex_con\<lparr>con_best := Some ex_any_loc\<rparr>) ex_any_loc \<and>
   principal_ok ex_env (ex_con\<lparr>con_best := Some ex_any_loc\<rparr>) None ex_any_loc \<and>
   cupsdIsAuthorized ex_env (ex_con\<lparr>con_best := Some ex_any_loc\<rparr>) None
     = (HTTP_UPGRADE_REQUIRED, [])"
  by (simp add: ex_any_loc_def credentials_valid_def principal_ok_def auth_eval)

subsection \<open>Digest nonce\<close>

text \<open>
  Claim C4.  Take a request for which none of the early returns applies (host filter
  with Satisfy, encryption, anonymous access, unauthenticated IPP user name, empty user
  name), which does not use the Local certificate of localhost, and whose scheme in
  effect (that of the location, or the default when the location has none) is Digest.
  If the nonce subfield of its Authorization header is missing, or is not the host
  name of the peer byte for byte, the status is UNAUTHORIZED.
\<close>

theorem digest_nonce_binding:
  "con_best con = Some loc \<and> passes_early_steps env con loc \<and> \<not> local_certificate con \<and>
   effective_type env loc = AUTH_DIGEST \<and>
   httpGetSubField env (con_http_authorization con) ''nonce'' \<noteq> Some (con_http_hostname con)
   \<longrightarrow> fst (cupsdIsAuthorized env con owner) = HTTP_UNAUTHORIZED"
proof (intro impI, elim conjE)
  assume best: "con_best con = Some loc" and early: "passes_early_steps env con loc"
    and nl: "\<not> local_certificate con" and dig: "effective_type env loc = AUTH_DIGEST"
    and nonce: "httpGetSubField env (con_http_authorization con) ''nonce''
                  \<noteq> Some (con_http_hostname con)"
  have d: "fst (auth_digest env con loc) = Inl HTTP_UNAUTHORIZED"
    using nonce
    by (cases "httpGetSubField env (con_http_authorization con) ''nonce''")
       (auto simp: auth_digest_def)
  have "fst (check_password env con loc) = Inl HTTP_UNAUTHORIZED"
    using nl dig d by (simp add: check_password_def)
  then obtain l2 where c: "check_password env con loc = (Inl HTTP_UNAUTHORIZED, l2)"
    by (cases "check_password env con loc") simp
  show "fst (cupsdIsAuthorized env con owner) = HTTP_UNAUTHORIZED"
    unfolding cupsdIsAuthorized_late[OF best early] by (simp add: c)
qed

text \<open>An instance: carol sends the right response, but with the nonce of another host.\<close>

theorem digest_nonce_binding_witness:
  "con_best ex_digest_con = Some ex_digest_loc \<and>
   passes_early_steps (ex_env_nonce ''other.example.com'') ex_digest_con ex_digest_loc \<and>
   \<not> local_certificate ex_digest_con \<and>
   effective_type (ex_env_nonce ''other.example.com'') ex_digest_loc = AUTH_DIGEST \<and>
   httpGetSubField (ex_env_nonce ''other.example.com'')
     (con_http_authorization ex_digest_con) ''nonce'' = Some ''other.example.com'' \<and>
   con_http_hostname ex_digest_con = ''client.example.com'' \<and>
   fst (cupsdIsAuthorized (ex_env_nonce ''other.example.com'') ex_digest_con None)
     = HTTP_UNAUTHORIZED"
proof -
  let ?env = "ex_env_nonce ''other.example.com''"
  have h: "con_best ex_digest_con = Some ex_digest_loc"
    "passes_early_steps ?env ex_digest_con ex_digest_loc"
    "\<not> local_certificate ex_digest_con"
    "effective_type ?env ex_digest_loc = AUTH_DIGEST"
    "httpGetSubField ?env (con_http_authorization ex_digest_con) ''nonce''
       = Some ''other.example.com''"
    "con_http_hostname ex_digest_con = ''client.example.com''"
    by (simp_all add: ex_env_nonce_def ex_digest_con_def ex_digest_loc_def
          passes_early_steps_def auth_eval)
  have "fst (cupsdIsAuthorized ?env ex_digest_con None) = HTTP_UNAUTHORIZED"
    using digest_nonce_binding[of ex_digest_con ex_digest_loc ?env None] h by simp
  then show ?thesis using h by blast
qed

subsection \<open>Level Group without Basic\<close>

lemma effective_not_basic: "effective_type env loc \<noteq> AUTH_BASIC \<Longrightarrow> type_l loc \<noteq> AUTH_BASIC"
  by (auto simp: effective_type_def)

text \<open>
  Claim C10.  Take a request governed by a location of level Group whose scheme in
  effect is not Basic, for which none of the early returns applies and whose password
  check succeeds (by verification or by the Local certificate of localhost).  The
  status is OK, and the calls made are those of the host filter followed by those of
  the password check: nothing is looked up after the password check, no group is
  scanned.  The reason is in the last step of the function: for level Group and a user
  other than root it scans the group names when the type of the location is Basic, and
  answers OK without a call otherwise.
\<close>

theorem group_level_no_scan:
  "(con_best con = Some loc \<and> passes_early_steps env con loc \<and>
    level loc = AUTH_GROUP \<and> effective_type env loc \<noteq> AUTH_BASIC \<and>
    fst (check_password env con loc) = Inr pw \<longrightarrow>
      cupsdIsAuthorized env con owner =
        (HTTP_OK, snd (host_auth env con loc) @ snd (check_password env con loc))) \<and>
   (level loc = AUTH_GROUP \<and> con_username con \<noteq> ''root'' \<longrightarrow>
      check_names env con owner loc pw =
        (if type_l loc = AUTH_BASIC
         then (case check_group_names env (con_username con) pw (names loc) of
                 (True, l) \<Rightarrow> (HTTP_OK, l) | (False, l) \<Rightarrow> (HTTP_UNAUTHORIZED, l))
         else (HTTP_OK, [])))"
proof -
  have a: "cupsdIsAuthorized env con owner =
        (HTTP_OK, snd (host_auth env con loc) @ snd (check_password env con loc))"
    if best: "con_best con = Some loc" and early: "passes_early_steps env con loc"
      and lev: "level loc = AUTH_GROUP" and eff: "effective_type env loc \<noteq> AUTH_BASIC"
      and pass: "fst (check_password env con loc) = Inr pw"
  proof -
    have "check_names env con owner loc pw = (HTTP_OK, [])"
      using lev effective_not_basic[OF eff] by (simp add: check_names_def)
    then show ?thesis
      unfolding cupsdIsAuthorized_names[OF best early pass] by (simp add: after_def)
  qed
  have b: "check_names env con owner loc pw =
        (if type_l loc = AUTH_BASIC
         then (case check_group_names env (con_username con) pw (names loc) of
                 (True, l) \<Rightarrow> (HTTP_OK, l) | (False, l) \<Rightarrow> (HTTP_UNAUTHORIZED, l))
         else (HTTP_OK, []))"
    if "level loc = AUTH_GROUP" "con_username con \<noteq> ''root''"
    using that by (simp add: check_names_def)
  show ?thesis using a b by blast
qed

text \<open>An instance: carol sends the right Digest response for her entry in group staff
  of passwd.md5.  The file is opened once, by the password check; no group is looked
  up afterwards.\<close>

theorem group_level_no_scan_witness:
  "con_best ex_digest_con = Some ex_digest_loc \<and>
   passes_early_steps (ex_env_nonce ''client.example.com'') ex_digest_con ex_digest_loc \<and>
   level ex_digest_loc = AUTH_GROUP \<and>
   effective_type (ex_env_nonce ''client.example.com'') ex_digest_loc = AUTH_DIGEST \<and>
   check_password (ex_env_nonce ''client.example.com'') ex_digest_con ex_digest_loc
     = (Inr None, [CALL_cupsFileOpen_passwd_md5]) \<and>
   cupsdIsAuthorized (ex_env_nonce ''client.example.com'') ex_digest_con None
     = (HTTP_OK, [CALL_cupsFileOpen_passwd_md5])"
proof -
  let ?env = "ex_env_nonce ''client.example.com''"
  have h: "con_best ex_digest_con = Some ex_digest_loc"
    "passes_early_steps ?env ex_digest_con ex_digest_loc"
    "level ex_digest_loc = AUTH_GROUP"
    "effective_type ?env ex_digest_loc = AUTH_DIGEST"
    by (simp_all add: ex_env_nonce_def ex_digest_con_def ex_digest_loc_def
          passes_early_steps_def auth_eval)
  have c: "check_password ?env ex_digest_con ex_digest_loc
             = (Inr None, [CALL_cupsFileOpen_passwd_md5])"
    by (simp add: ex_env_nonce_def ex_digest_con_def ex_digest_loc_def auth_eval)
  have l: "snd (host_auth ?env ex_digest_con ex_digest_loc) = []"
    by (simp add: ex_env_nonce_def ex_digest_con_def ex_digest_loc_def auth_eval)
  have "cupsdIsAuthorized ?env ex_digest_con None = (HTTP_OK, [CALL_cupsFileOpen_passwd_md5])"
    using group_level_no_scan[of ex_digest_con ex_digest_loc ?env None None] h c l by simp
  then show ?thesis using h c by blast
qed

subsection \<open>No governing location\<close>

lemma cupsdIsAuthorized_no_location:
  "con_best con = None \<Longrightarrow>
   cupsdIsAuthorized env con owner =
     (if con_http_hostname con = ''localhost'' \<or> con_http_hostname con = ServerName env
      then (HTTP_OK, []) else (HTTP_FORBIDDEN, []))"
  by (simp add: cupsdIsAuthorized_def)

text \<open>
  Claim C5 does not hold of the code.  Without a governing location the host name is
  compared with \<open>strcmp\<close> (line 1069), so a peer called \<open>LOCALHOST\<close> is refused, although
  the host filter of the same function (line 1120, \<open>strcasecmp\<close>) takes the same peer
  for localhost and allows it whatever the lists of the location say.
\<close>

theorem no_location_localhost_case:
  "con_best (ex_con\<lparr>con_http_hostname := ''LOCALHOST''\<rparr>) = None \<and>
   strcasecmp_eq (con_http_hostname (ex_con\<lparr>con_http_hostname := ''LOCALHOST''\<rparr>)) ''localhost'' \<and>
   cupsdIsAuthorized ex_env (ex_con\<lparr>con_http_hostname := ''LOCALHOST''\<rparr>) None
     = (HTTP_FORBIDDEN, []) \<and>
   cupsdIsAuthorized ex_env (ex_con\<lparr>con_http_hostname := ''localhost''\<rparr>) None
     = (HTTP_OK, []) \<and>
   host_auth ex_env (ex_con\<lparr>con_http_hostname := ''LOCALHOST''\<rparr>) ex_any_loc
     = (AUTH_ALLOW, []) \<and>
   host_auth ex_env ex_con ex_any_loc = (AUTH_DENY, [])"
  by (simp add: ex_any_loc_def auth_eval)

subsection \<open>The token \<open>@OWNER\<close> alone\<close>

lemma check_names_owner_only:
  assumes "level loc = AUTH_USER" "names loc = [''@OWNER'']" "con_username con \<noteq> ''root''"
  shows "fst (check_names env con owner loc pw) =
     (if (case owner of None \<Rightarrow> False | Some ow \<Rightarrow> strcasecmp_eq (con_username con) ow) \<or>
         fst (cupsdCheckGroup env (Some (con_username con)) pw (Some ''OWNER''))
      then HTTP_OK else HTTP_UNAUTHORIZED)"
proof -
  obtain b l where c: "cupsdCheckGroup env (Some (con_username con)) pw (Some ''OWNER'') = (b, l)"
    by (cases "cupsdCheckGroup env (Some (con_username con)) pw (Some ''OWNER'')")
  show ?thesis
    using assms owner_not_system
    by (cases b) (simp_all add: check_names_def c first_char_is_def after_def strcasecmp_eq_def)
qed

text \<open>
  Claim C7 does not hold of the code.  With the names of the location exactly
  \<open>[@OWNER]\<close>, level User, a user other than root whose password is good, and no owner
  supplied, the answer is OK when the user is in a group called OWNER: the token is
  looked up as a group after the owner comparison has failed.  (With an owner equal to
  the user name the answer is OK, as the claim says.)
\<close>

theorem owner_only_without_owner:
  "level ex_owner_loc = AUTH_USER \<and> names ex_owner_loc = [''@OWNER''] \<and>
   con_username (ex_con\<lparr>con_best := Some ex_owner_loc\<rparr>) = ''alice'' \<and>
   credentials_valid ex_env (ex_con\<lparr>con_best := Some ex_owner_loc\<rparr>) ex_owner_loc \<and>
   getgrnam ex_env ''OWNER'' = Some \<lparr> gr_mem = [''alice''], gr_gid = 7 \<rparr> \<and>
   cupsdIsAuthorized ex_env (ex_con\<lparr>con_best := Some ex_owner_loc\<rparr>) None
     = (HTTP_OK, [CALL_getpwnam ''alice'', CALL_pam_start ''alice'', CALL_pam_authenticate,
                  CALL_pam_acct_mgmt, CALL_pam_end, CALL_getgrnam ''OWNER'']) \<and>
   fst (cupsdIsAuthorized ex_env (ex_con\<lparr>con_best := Some ex_owner_loc\<rparr>) (Some ''alice''))
     = HTTP_OK \<and>
   fst (cupsdIsAuthorized (ex_env\<lparr>getgrnam := (\<lambda>g. None)\<rparr>)
          (ex_con\<lparr>con_best := Some ex_owner_loc\<rparr>) None) = HTTP_UNAUTHORIZED"
  by (simp add: ex_owner_loc_def credentials_valid_def auth_eval)

end
